theory Spec2Isabelle
  imports Complex_Main
begin

section \<open>Data model of \<^verbatim>\<open>src/Minimal/main.cpp\<close>\<close>

text \<open>
  The development embeds the per-frame logic of \<^verbatim>\<open>RiftApp::draw\<close>,
  \<^verbatim>\<open>RiftApp::setIOD\<close>, \<^verbatim>\<open>ExampleApp::ExampleApp\<close>,
  \<^verbatim>\<open>ExampleApp::renderScene\<close> and the view selection at the head of
  \<^verbatim>\<open>Scene::render\<close>.

  Conventions.
  \<^item> A C++ \<^verbatim>\<open>float\<close> is a \<^typ>\<open>real\<close>: poses are only copied and triggers only
    compared with \<^verbatim>\<open>0.5f\<close>; the two accumulators add exactly in the model (no rounding,
    no NaN).
  \<^item> A C++ \<^verbatim>\<open>int\<close> is an \<^typ>\<open>int\<close>. Every counter of the program stays in a small
    range (see \<open>app_inv\<close> below), so 32-bit overflow cannot occur on the states considered.
  \<^item> A \<^verbatim>\<open>glm::mat4\<close> is its four columns, a \<^verbatim>\<open>glm::mat3\<close> its three columns.
  \<^item> A two-element C array (one entry per hand or per eye) is a pair: index 0 is
    \<^const>\<open>fst\<close>, index 1 is \<^const>\<open>snd\<close>.
  \<^item> \<^verbatim>\<open>std::deque\<close> is a list, front first. \<^verbatim>\<open>pop_front\<close> on an empty deque and
    \<^verbatim>\<open>operator[]\<close> out of range are undefined behaviour in C++: the model returns
    \<^const>\<open>None\<close> there.
  \<^item> \<^verbatim>\<open>glm::inverse\<close> is library code outside the repository; every function that
    needs it takes it as the parameter \<open>glm_inverse\<close>.
  \<^item> Drawing calls (OpenGL, the sphere, cubes and skyboxes) are not modelled; the model
    keeps the transform they are given.
\<close>

type_synonym vec2 = "real \<times> real"
type_synonym vec3 = "real \<times> real \<times> real"
type_synonym vec4 = "real \<times> real \<times> real \<times> real"
type_synonym mat3 = "vec3 \<times> vec3 \<times> vec3"
type_synonym mat4 = "vec4 \<times> vec4 \<times> vec4 \<times> vec4"

text \<open>\<^verbatim>\<open>glm::mat4(1.0f)\<close> and \<^verbatim>\<open>glm::vec3(1.0f)\<close>.\<close>

definition mat4_1 :: mat4 where
  "mat4_1 = ((1, 0, 0, 0), (0, 1, 0, 0), (0, 0, 1, 0), (0, 0, 0, 1))"

definition vec3_1 :: vec3 where
  "vec3_1 = (1, 1, 1)"

text \<open>\<^verbatim>\<open>glm::mat3(m)\<close> for a \<^verbatim>\<open>mat4\<close> \<open>m\<close>: the upper-left 3x3 block.\<close>

fun mat3_of_mat4 :: "mat4 \<Rightarrow> mat3" where
  "mat3_of_mat4 ((a0, a1, a2, a3), (b0, b1, b2, b3), (c0, c1, c2, c3), d) =
     ((a0, a1, a2), (b0, b1, b2), (c0, c1, c2))"

text \<open>\<^verbatim>\<open>glm::mat4(r)\<close> for a \<^verbatim>\<open>mat3\<close> \<open>r\<close>: the block completed by the identity.\<close>

fun mat4_of_mat3 :: "mat3 \<Rightarrow> mat4" where
  "mat4_of_mat3 ((a0, a1, a2), (b0, b1, b2), (c0, c1, c2)) =
     ((a0, a1, a2, 0), (b0, b1, b2, 0), (c0, c1, c2, 0), (0, 0, 0, 1))"

text \<open>\<^verbatim>\<open>m[3]\<close> read and \<^verbatim>\<open>m[3] = v\<close> written.\<close>

fun col3 :: "mat4 \<Rightarrow> vec4" where
  "col3 (a, b, c, d) = d"

fun set_col3 :: "mat4 \<Rightarrow> vec4 \<Rightarrow> mat4" where
  "set_col3 (a, b, c, d) v = (a, b, c, v)"

text \<open>The C++ operator \<^verbatim>\<open>%\<close> on \<^verbatim>\<open>int\<close>: the remainder of the division that truncates
  towards zero.\<close>

definition c_rem :: "int \<Rightarrow> int \<Rightarrow> int" where
  "c_rem a b = sgn a * (\<bar>a\<bar> mod \<bar>b\<bar>)"

text \<open>The bits of \<^verbatim>\<open>ovrInputState::Buttons\<close> that the program tests. The mask constants
  live in the Oculus SDK headers; \<^verbatim>\<open>Buttons & ovrButton_X\<close> is membership here.\<close>

datatype ovrButton = ovrButton_A | ovrButton_B | ovrButton_X | ovrButton_LThumb | ovrButton_RThumb

record ovrInputState =
  Buttons :: "ovrButton set"
  Thumbstick :: "vec2 \<times> vec2"
  IndexTrigger :: "real \<times> real"
  HandTrigger :: "real \<times> real"

text \<open>The members of \<^verbatim>\<open>RiftApp\<close> and \<^verbatim>\<open>ExampleApp\<close> that the frame logic reads or
  writes, and the member \<^verbatim>\<open>drawView\<close> of \<^verbatim>\<open>Scene\<close>. \<open>hmdToEyeX\<close> is
  \<^verbatim>\<open>_viewScaleDesc.HmdToEyePose[e].Position.x\<close> for the two eyes.\<close>

record app =
  a_pressed :: int
  a_hasPressed :: bool
  iod :: real
  hmdToEyeX :: "real \<times> real"
  cubeScale :: real
  x_pressed :: int
  x_hasPressed :: bool
  b_pressed :: int
  b_hasPressed :: bool
  leftIndexP :: bool
  rightIndexP :: bool
  leftThumbP :: bool
  rightThumbP :: bool
  ldelayRender :: int
  rdelayRender :: int
  leftCurFrame :: mat4
  rightCurFrame :: mat4
  renderFrame :: mat4
  iodOffset :: real
  rotation :: mat3
  position :: vec4
  lringBuffer :: "mat4 list"
  rringBuffer :: "mat4 list"
  cringBuffer :: "vec3 list"
  lagNum :: int
  delayNum :: int
  drawView :: mat4

text \<open>One invocation of \<^verbatim>\<open>renderScene\<close>: its arguments (the projection is only handed
  on to the drawing calls) and what it reads from the device during the call, namely the
  tracked position of the right hand and the controller state (\<^const>\<open>None\<close> when
  \<^verbatim>\<open>ovr_GetInputState\<close> does not succeed).\<close>

record call =
  headPose :: mat4
  whichEye :: int
  handPosition :: vec3
  inputState :: "ovrInputState option"

text \<open>What one invocation hands to the scene: the local \<^verbatim>\<open>lagFrame\<close>, the local
  \<^verbatim>\<open>outputFrame\<close> whose inverse is the view argument, the cursor position
  \<^verbatim>\<open>right\<close>, and the transform \<^verbatim>\<open>drawView\<close> that \<^verbatim>\<open>Scene::render\<close> draws with.\<close>

record rendered =
  out_lagFrame :: mat4
  out_outputFrame :: mat4
  out_right :: vec3
  out_drawView :: mat4

section \<open>Construction\<close>

text \<open>\<^verbatim>\<open>RiftApp::RiftApp\<close> (line 536) and \<^verbatim>\<open>ExampleApp::ExampleApp\<close> with the default member
  initialisers (lines 485-486, 1020-1058). The argument is the object before construction:
  members without an initialiser (the three frames, \<^verbatim>\<open>rotation\<close>, \<^verbatim>\<open>position\<close>,
  \<^verbatim>\<open>drawView\<close>) and the eye offsets reported by the device keep its values.\<close>

definition ExampleApp :: "app \<Rightarrow> app" where
  "ExampleApp u = u\<lparr>
     a_pressed := 0, a_hasPressed := False,
     iod := \<bar>fst (hmdToEyeX u) - snd (hmdToEyeX u)\<bar>,
     cubeScale := 0, x_pressed := 0, x_hasPressed := False,
     b_pressed := 0, b_hasPressed := False,
     leftIndexP := False, rightIndexP := False,
     leftThumbP := False, rightThumbP := False,
     ldelayRender := 0, rdelayRender := 0,
     iodOffset := 0,
     lringBuffer := replicate 60 mat4_1,
     rringBuffer := replicate 60 mat4_1,
     cringBuffer := replicate 60 vec3_1,
     lagNum := 0, delayNum := 0\<rparr>"

section \<open>The pose history\<close>

text \<open>\<^verbatim>\<open>pop_front\<close>, \<^verbatim>\<open>push_back\<close> and \<^verbatim>\<open>operator[]\<close> of \<^verbatim>\<open>std::deque\<close>. The index
  of \<^verbatim>\<open>operator[]\<close> is unsigned, so a negative \<^verbatim>\<open>int\<close> is out of range as well.\<close>

definition pop_front :: "'a list \<Rightarrow> 'a list option" where
  "pop_front xs = (case xs of [] \<Rightarrow> None | x # rest \<Rightarrow> Some rest)"

definition push_back :: "'a list \<Rightarrow> 'a \<Rightarrow> 'a list" where
  "push_back xs x = xs @ [x]"

definition deque_at :: "'a list \<Rightarrow> int \<Rightarrow> 'a option" where
  "deque_at xs i = (if 0 \<le> i \<and> i < int (length xs) then Some (xs ! nat i) else None)"

text \<open>The pair \<^verbatim>\<open>buf.pop_front(); buf.push_back(v);\<close> of lines 1079-1080, 1084-1085 and
  1108-1110 (the spec's \<open>recordPose\<close> and \<open>recordCursor\<close>), and the read
  \<^verbatim>\<open>buf[60-lagNum-1]\<close> of lines 1239, 1243 and 1246 (the spec's \<open>retrieveLagged\<close>).\<close>

definition recordPose :: "'a list \<Rightarrow> 'a \<Rightarrow> 'a list option" where
  "recordPose buf v = (case pop_front buf of None \<Rightarrow> None | Some rest \<Rightarrow> Some (push_back rest v))"

definition retrieveLagged :: "'a list \<Rightarrow> int \<Rightarrow> 'a option" where
  "retrieveLagged buf lag = deque_at buf (60 - lag - 1)"

text \<open>Lines 1078-1110 of \<^verbatim>\<open>renderScene\<close>: the eye's history and the cursor history are
  advanced.\<close>

definition record_histories :: "app \<Rightarrow> call \<Rightarrow> app option" where
  "record_histories s c =
     (case (if whichEye c = 0
            then map_option (\<lambda>b. s\<lparr>lringBuffer := b\<rparr>) (recordPose (lringBuffer s) (headPose c))
            else Some s) of
        None \<Rightarrow> None
      | Some s1 \<Rightarrow>
     (case (if whichEye c = 1
            then map_option (\<lambda>b. s1\<lparr>rringBuffer := b\<rparr>) (recordPose (rringBuffer s1) (headPose c))
            else Some s1) of
        None \<Rightarrow> None
      | Some s2 \<Rightarrow>
          map_option (\<lambda>b. s2\<lparr>cringBuffer := b\<rparr>) (recordPose (cringBuffer s2) (handPosition c))))"

section \<open>Controller input (lines 1112-1234 of \<^verbatim>\<open>renderScene\<close>)\<close>

text \<open>\<^verbatim>\<open>RiftApp::setIOD\<close> (lines 543-555).\<close>

definition setIOD :: "real \<Rightarrow> app \<Rightarrow> app" where
  "setIOD off s =
     (let newIOD = iod s + off;
          newIOD = (if newIOD < - 0.1 then - 0.1 else newIOD);
          newIOD = (if newIOD > 0.3 then 0.3 else newIOD)
      in s\<lparr>hmdToEyeX := (- newIOD / 2, newIOD / 2)\<rparr>)"

text \<open>Lines 1114-1125: button X cycles the content mode on a press edge.\<close>

definition button_x :: "ovrInputState \<Rightarrow> app \<Rightarrow> app" where
  "button_x i s =
     (let s1 = (if ovrButton_X \<in> Buttons i
                then (if \<not> x_hasPressed s
                      then s\<lparr>x_pressed := c_rem (x_pressed s + 1) 3, x_hasPressed := True\<rparr>
                      else s)
                else s)
      in if ovrButton_X \<notin> Buttons i \<and> x_hasPressed s1 then s1\<lparr>x_hasPressed := False\<rparr> else s1)"

text \<open>Lines 1127-1142: the left thumbstick accumulates the cube scale, clamped where it is
  accumulated; the left thumbstick button resets it.\<close>

definition left_stick :: "ovrInputState \<Rightarrow> app \<Rightarrow> app" where
  "left_stick i s =
     (let x = fst (fst (Thumbstick i));
          s1 = (if x \<noteq> 0
                then (let cs = cubeScale s + x / 10;
                          cs = (if cs > 1 then 1 else cs);
                          cs = (if cs < - 1 then - 1 else cs)
                      in s\<lparr>cubeScale := cs\<rparr>)
                else s)
      in if ovrButton_LThumb \<in> Buttons i then s1\<lparr>cubeScale := 0\<rparr> else s1)"

text \<open>Lines 1144-1159: button B cycles the view mode on a press edge and captures the
  rotation and the translation of the inverted head pose.\<close>

definition button_b :: "(mat4 \<Rightarrow> mat4) \<Rightarrow> mat4 \<Rightarrow> ovrInputState \<Rightarrow> app \<Rightarrow> app" where
  "button_b glm_inverse hp i s =
     (let s1 = (if ovrButton_B \<in> Buttons i
                then (if \<not> b_hasPressed s
                      then (let invHeadPose = glm_inverse hp
                            in s\<lparr>b_pressed := c_rem (b_pressed s + 1) 4,
                                 rotation := mat3_of_mat4 invHeadPose,
                                 position := col3 invHeadPose,
                                 b_hasPressed := True\<rparr>)
                      else s)
                else s)
      in if ovrButton_B \<notin> Buttons i \<and> b_hasPressed s1 then s1\<lparr>b_hasPressed := False\<rparr> else s1)"

text \<open>Lines 1161-1173: the right thumbstick accumulates \<^verbatim>\<open>iodOffset\<close> and applies it
  through \<^verbatim>\<open>setIOD\<close>; the right thumbstick button resets it.\<close>

definition right_stick :: "ovrInputState \<Rightarrow> app \<Rightarrow> app" where
  "right_stick i s =
     (let x = fst (snd (Thumbstick i));
          s1 = (if x \<noteq> 0
                then (let s' = s\<lparr>iodOffset := iodOffset s + x / 100\<rparr> in setIOD (iodOffset s') s')
                else s)
      in if ovrButton_RThumb \<in> Buttons i
         then (let s' = s1\<lparr>iodOffset := 0\<rparr> in setIOD (iodOffset s') s')
         else s1)"

text \<open>Lines 1175-1199: the index triggers change \<^verbatim>\<open>lagNum\<close>.\<close>

definition index_triggers :: "ovrInputState \<Rightarrow> app \<Rightarrow> app" where
  "index_triggers i s =
     (let s1 = (if fst (IndexTrigger i) > 0.5
                then (if \<not> leftIndexP s \<and> lagNum s > 0
                      then s\<lparr>lagNum := c_rem (lagNum s - 1) 60, leftIndexP := True\<rparr>
                      else s)
                else s);
          s2 = (if fst (IndexTrigger i) \<le> 0.5 \<and> leftIndexP s1 then s1\<lparr>leftIndexP := False\<rparr> else s1);
          s3 = (if snd (IndexTrigger i) > 0.5
                then (if \<not> rightIndexP s2
                      then s2\<lparr>lagNum := c_rem (lagNum s2 + 1) 60, rightIndexP := True\<rparr>
                      else s2)
                else s2)
      in if snd (IndexTrigger i) \<le> 0.5 \<and> rightIndexP s3 then s3\<lparr>rightIndexP := False\<rparr> else s3)"

text \<open>Lines 1201-1233: the hand triggers change \<^verbatim>\<open>delayNum\<close>.\<close>

definition hand_triggers :: "ovrInputState \<Rightarrow> app \<Rightarrow> app" where
  "hand_triggers i s =
     (let s1 = (if fst (HandTrigger i) > 0.5
                then (let t = (if \<not> leftThumbP s \<and> delayNum s > 0
                               then s\<lparr>delayNum := delayNum s - 1, leftThumbP := True\<rparr>
                               else s)
                      in if delayNum t < 0 then t\<lparr>delayNum := 0\<rparr> else t)
                else s);
          s2 = (if fst (HandTrigger i) \<le> 0.5 \<and> leftThumbP s1 then s1\<lparr>leftThumbP := False\<rparr> else s1);
          s3 = (if snd (HandTrigger i) > 0.5
                then (let t = (if \<not> rightThumbP s2
                               then s2\<lparr>delayNum := delayNum s2 + 1, rightThumbP := True\<rparr>
                               else s2)
                      in if delayNum t \<ge> 10 then t\<lparr>delayNum := 10\<rparr> else t)
                else s2)
      in if snd (HandTrigger i) \<le> 0.5 \<and> rightThumbP s3 then s3\<lparr>rightThumbP := False\<rparr> else s3)"

text \<open>The whole block guarded by \<^verbatim>\<open>OVR_SUCCESS(ovr_GetInputState(...))\<close>.\<close>

definition handle_input :: "(mat4 \<Rightarrow> mat4) \<Rightarrow> call \<Rightarrow> app \<Rightarrow> app" where
  "handle_input glm_inverse c s =
     (case inputState c of
        None \<Rightarrow> s
      | Some i \<Rightarrow>
          hand_triggers i (index_triggers i (right_stick i
            (button_b glm_inverse (headPose c) i (left_stick i (button_x i s))))))"

section \<open>Lag, delay and the final transform (lines 1236-1293)\<close>

text \<open>Lines 1236-1246: the lagged pose of the eye being rendered and the lagged cursor.\<close>

definition lag_lookup :: "app \<Rightarrow> call \<Rightarrow> (mat4 \<times> vec3) option" where
  "lag_lookup s c =
     (case (if whichEye c = 0 then retrieveLagged (lringBuffer s) (lagNum s)
            else Some (headPose c)) of
        None \<Rightarrow> None
      | Some lf0 \<Rightarrow>
     (case (if whichEye c = 1 then retrieveLagged (rringBuffer s) (lagNum s)
            else Some lf0) of
        None \<Rightarrow> None
      | Some lagFrame \<Rightarrow>
          map_option (\<lambda>right. (lagFrame, right)) (retrieveLagged (cringBuffer s) (lagNum s))))"

text \<open>Lines 1248-1284: the per-eye delay counters and the frozen frames, one definition
  per \<^verbatim>\<open>if\<close> statement: a frame is captured when the eye's counter is 0, held while the
  counter is below \<^verbatim>\<open>delayNum\<close>, and the counter is reset when it reaches \<^verbatim>\<open>delayNum\<close>.\<close>

definition capture_left :: "call \<Rightarrow> app \<Rightarrow> app" where
  "capture_left c s =
     (if ldelayRender s = 0
      then (if whichEye c = 0
            then (let s1 = s\<lparr>leftCurFrame := headPose c\<rparr> in s1\<lparr>renderFrame := leftCurFrame s1\<rparr>)
            else s)
      else s)"

definition capture_right :: "call \<Rightarrow> app \<Rightarrow> app" where
  "capture_right c s =
     (if rdelayRender s = 0
      then (if whichEye c = 1
            then (let s1 = s\<lparr>rightCurFrame := headPose c\<rparr> in s1\<lparr>renderFrame := rightCurFrame s1\<rparr>)
            else s)
      else s)"

definition hold_left :: "call \<Rightarrow> app \<Rightarrow> app" where
  "hold_left c s =
     (if ldelayRender s < delayNum s
      then (if whichEye c = 0
            then s\<lparr>renderFrame := leftCurFrame s, ldelayRender := ldelayRender s + 1\<rparr>
            else s)
      else s)"

definition hold_right :: "call \<Rightarrow> app \<Rightarrow> app" where
  "hold_right c s =
     (if rdelayRender s < delayNum s
      then (if whichEye c = 1
            then s\<lparr>renderFrame := rightCurFrame s, rdelayRender := rdelayRender s + 1\<rparr>
            else s)
      else s)"

definition reset_left :: "app \<Rightarrow> app" where
  "reset_left s = (if ldelayRender s \<ge> delayNum s then s\<lparr>ldelayRender := 0\<rparr> else s)"

definition reset_right :: "app \<Rightarrow> app" where
  "reset_right s = (if rdelayRender s \<ge> delayNum s then s\<lparr>rdelayRender := 0\<rparr> else s)"

definition delay_step :: "call \<Rightarrow> app \<Rightarrow> app" where
  "delay_step c s =
     reset_right (reset_left (hold_right c (hold_left c (capture_right c (capture_left c s)))))"

text \<open>Lines 1237 and 1286-1291: the lag is applied first, the delay overwrites it.\<close>

definition select_output :: "app \<Rightarrow> call \<Rightarrow> mat4 \<Rightarrow> mat4" where
  "select_output s c lagFrame =
     (let outputFrame = headPose c;
          outputFrame = (if lagNum s > 0 then lagFrame else outputFrame)
      in if delayNum s > 0 then renderFrame s else outputFrame)"

text \<open>Lines 909-956 of \<^verbatim>\<open>Scene::render\<close>: the view mode selects \<^verbatim>\<open>drawView\<close>, which the
  cubes and skyboxes are then drawn with. The first argument is the member
  \<^verbatim>\<open>drawView\<close> before the call.\<close>

definition Scene_render :: "mat4 \<Rightarrow> mat4 \<Rightarrow> int \<Rightarrow> mat3 \<Rightarrow> vec4 \<Rightarrow> mat4" where
  "Scene_render dv0 view b rot pos =
     (let dv = (if b = 0 then view else dv0);
          dv = (if b = 2 then set_col3 view pos else dv);
          dv = (if b = 1 then set_col3 (mat4_of_mat3 rot) (col3 view) else dv)
      in if b = 3 then set_col3 (mat4_of_mat3 rot) pos else dv)"

text \<open>\<^verbatim>\<open>ExampleApp::renderScene\<close> (lines 1076-1294).\<close>

definition renderScene :: "(mat4 \<Rightarrow> mat4) \<Rightarrow> app \<Rightarrow> call \<Rightarrow> (app \<times> rendered) option" where
  "renderScene glm_inverse s c =
     (case record_histories s c of
        None \<Rightarrow> None
      | Some s1 \<Rightarrow>
          (let s2 = handle_input glm_inverse c s1
           in case lag_lookup s2 c of
                None \<Rightarrow> None
              | Some (lagFrame, right) \<Rightarrow>
                  (let s3 = delay_step c s2;
                       outputFrame = select_output s3 c lagFrame;
                       dv = Scene_render (drawView s3) (glm_inverse outputFrame) (b_pressed s3)
                              (rotation s3) (position s3)
                   in Some (s3\<lparr>drawView := dv\<rparr>,
                            \<lparr>out_lagFrame = lagFrame, out_outputFrame = outputFrame,
                             out_right = right, out_drawView = dv\<rparr>))))"

text \<open>A sequence of invocations, stopping at the first undefined one.\<close>

fun run :: "(mat4 \<Rightarrow> mat4) \<Rightarrow> app \<Rightarrow> call list \<Rightarrow> (app \<times> rendered list) option" where
  "run glm_inverse s [] = Some (s, [])"
| "run glm_inverse s (c # cs) =
     (case renderScene glm_inverse s c of
        None \<Rightarrow> None
      | Some (s1, r) \<Rightarrow>
          (case run glm_inverse s1 cs of
             None \<Rightarrow> None
           | Some (s2, rs) \<Rightarrow> Some (s2, r # rs)))"

section \<open>The frame driver (\<^verbatim>\<open>RiftApp::draw\<close>, lines 639-718)\<close>

text \<open>One display frame as \<^verbatim>\<open>draw\<close> sees it: the two predicted eye poses (already
  converted by \<^verbatim>\<open>ovr::toGlm\<close>), the controller state read by \<^verbatim>\<open>draw\<close> itself, and
  what the first and the second invocation of \<^verbatim>\<open>renderScene\<close> of this frame read from
  the device (hand position and controller state).\<close>

record frame =
  eyePoses :: "mat4 \<times> mat4"
  drawInput :: "ovrInputState option"
  firstRead :: "vec3 \<times> ovrInputState option"
  secondRead :: "vec3 \<times> ovrInputState option"

definition mk_call :: "mat4 \<Rightarrow> int \<Rightarrow> vec3 \<times> ovrInputState option \<Rightarrow> call" where
  "mk_call hp eye rd = \<lparr>headPose = hp, whichEye = eye, handPosition = fst rd, inputState = snd rd\<rparr>"

text \<open>One of the four blocks \<^verbatim>\<open>if (a_pressed == mode) { ... renderScene(...) ... }\<close>.\<close>

definition draw_block ::
  "(mat4 \<Rightarrow> mat4) \<Rightarrow> int \<Rightarrow> call list \<Rightarrow> (app \<times> rendered list) option \<Rightarrow> (app \<times> rendered list) option"
where
  "draw_block glm_inverse mode calls acc =
     (case acc of
        None \<Rightarrow> None
      | Some (s, rs) \<Rightarrow>
          if a_pressed s = mode
          then (case run glm_inverse s calls of
                  None \<Rightarrow> None
                | Some (s1, rs1) \<Rightarrow> Some (s1, rs @ rs1))
          else Some (s, rs))"

text \<open>Lines 652-703. Nothing is rendered when \<^verbatim>\<open>ovr_GetInputState\<close> fails. Button A
  cycles the eye mode on a press edge; mode 0 renders both eyes, mode 1 the left eye only,
  mode 2 the right eye only, mode 3 both eyes with the eye index swapped (\<^verbatim>\<open>1-eye\<close>).
  \<^verbatim>\<open>renderScene\<close> never assigns \<^verbatim>\<open>a_pressed\<close>, so at most one block runs and the single-eye
  blocks consume the first device read of the frame.\<close>

definition draw :: "(mat4 \<Rightarrow> mat4) \<Rightarrow> app \<Rightarrow> frame \<Rightarrow> (app \<times> rendered list) option" where
  "draw glm_inverse s f =
     (case drawInput f of
        None \<Rightarrow> Some (s, [])
      | Some i \<Rightarrow>
          (let s1 = (if ovrButton_A \<in> Buttons i
                     then (if \<not> a_hasPressed s
                           then s\<lparr>a_pressed := c_rem (a_pressed s + 1) 4, a_hasPressed := True\<rparr>
                           else s)
                     else s);
               l = fst (eyePoses f);
               r = snd (eyePoses f);
               b0 = draw_block glm_inverse 0
                      [mk_call l 0 (firstRead f), mk_call r 1 (secondRead f)] (Some (s1, []));
               b1 = draw_block glm_inverse 1 [mk_call l 0 (firstRead f)] b0;
               b2 = draw_block glm_inverse 2 [mk_call r 1 (firstRead f)] b1;
               b3 = draw_block glm_inverse 3
                      [mk_call l (1 - 0) (firstRead f), mk_call r (1 - 1) (secondRead f)] b2
           in case b3 of
                None \<Rightarrow> None
              | Some (s2, rs) \<Rightarrow>
                  Some (if ovrButton_A \<notin> Buttons i \<and> a_hasPressed s2
                        then s2\<lparr>a_hasPressed := False\<rparr> else s2, rs)))"

text \<open>A sequence of frames; the result lists what was rendered in each frame.\<close>

fun frames ::
  "(mat4 \<Rightarrow> mat4) \<Rightarrow> app \<Rightarrow> frame list \<Rightarrow> (app \<times> rendered list list) option"
where
  "frames glm_inverse s [] = Some (s, [])"
| "frames glm_inverse s (f # fs) =
     (case draw glm_inverse s f of
        None \<Rightarrow> None
      | Some (s1, rs) \<Rightarrow>
          (case frames glm_inverse s1 fs of
             None \<Rightarrow> None
           | Some (s2, rss) \<Rightarrow> Some (s2, rs # rss)))"

section \<open>Invariant\<close>

text \<open>The three histories hold 60 entries and every counter is in its range. The
  constructor establishes this and every invocation of \<^verbatim>\<open>renderScene\<close> and of
  \<^verbatim>\<open>draw\<close> keeps it (lemmas \<open>app_inv_ExampleApp\<close>, \<open>renderScene_inv\<close>, \<open>draw_inv\<close>).\<close>

definition buffers60 :: "app \<Rightarrow> bool" where
  "buffers60 s \<longleftrightarrow>
     length (lringBuffer s) = 60 \<and> length (rringBuffer s) = 60 \<and> length (cringBuffer s) = 60"

definition app_inv :: "app \<Rightarrow> bool" where
  "app_inv s \<longleftrightarrow>
     buffers60 s \<and>
     0 \<le> lagNum s \<and> lagNum s \<le> 59 \<and>
     0 \<le> delayNum s \<and> delayNum s \<le> 10 \<and>
     0 \<le> ldelayRender s \<and> ldelayRender s \<le> 10 \<and>
     0 \<le> rdelayRender s \<and> rdelayRender s \<le> 10 \<and>
     0 \<le> x_pressed s \<and> x_pressed s \<le> 2 \<and>
     0 \<le> b_pressed s \<and> b_pressed s \<le> 3 \<and>
     0 \<le> a_pressed s \<and> a_pressed s \<le> 3"

section \<open>Inputs and conditions used in the statements\<close>

text \<open>A head pose translated by \<open>t\<close> along the x axis, a controller nobody touches, a call
  for eye \<open>e\<close> whose pose and hand position are tagged with \<open>t\<close>, and an object before
  construction whose members hold arbitrary values.\<close>

definition pose_x :: "real \<Rightarrow> mat4" where
  "pose_x t = ((1, 0, 0, 0), (0, 1, 0, 0), (0, 0, 1, 0), (t, 0, 0, 1))"

definition idle :: ovrInputState where
  "idle = \<lparr>Buttons = {}, Thumbstick = ((0, 0), (0, 0)), IndexTrigger = (0, 0), HandTrigger = (0, 0)\<rparr>"

definition eye_call :: "int \<Rightarrow> real \<Rightarrow> call" where
  "eye_call e t = \<lparr>headPose = pose_x t, whichEye = e, handPosition = (t, 0, 0), inputState = Some idle\<rparr>"

definition raw_app :: app where
  "raw_app = \<lparr>a_pressed = 7, a_hasPressed = True, iod = 0, hmdToEyeX = (- 0.032, 0.032),
     cubeScale = 5, x_pressed = 7, x_hasPressed = True, b_pressed = 7, b_hasPressed = True,
     leftIndexP = True, rightIndexP = True, leftThumbP = True, rightThumbP = True,
     ldelayRender = 7, rdelayRender = 7,
     leftCurFrame = pose_x 7, rightCurFrame = pose_x 8, renderFrame = pose_x 9,
     iodOffset = 5, rotation = mat3_of_mat4 mat4_1, position = (0, 0, 0, 1),
     lringBuffer = [], rringBuffer = [], cringBuffer = [],
     lagNum = 7, delayNum = 7, drawView = mat4_1\<rparr>"

text \<open>An invocation for eye \<open>e\<close> during which the right index trigger and the right hand
  trigger are pressed: it raises the lag and the delay by one.\<close>

definition both_up :: "int \<Rightarrow> call" where
  "both_up e = \<lparr>headPose = pose_x 4, whichEye = e, handPosition = (4, 0, 0),
     inputState = Some (idle\<lparr>IndexTrigger := (0, 1), HandTrigger := (0, 1)\<rparr>)\<rparr>"

text \<open>Invocations for the left eye during which exactly one trigger is pressed, or none,
  and a state in which both counters are at their upper limits.\<close>

definition trigger_call :: "real \<times> real \<Rightarrow> real \<times> real \<Rightarrow> call" where
  "trigger_call it ht = \<lparr>headPose = mat4_1, whichEye = 0, handPosition = vec3_1,
     inputState = Some (idle\<lparr>IndexTrigger := it, HandTrigger := ht\<rparr>)\<rparr>"

definition lag_up :: call where
  "lag_up = trigger_call (0, 1) (0, 0)"

definition lag_down :: call where
  "lag_down = trigger_call (1, 0) (0, 0)"

definition delay_up :: call where
  "delay_up = trigger_call (0, 0) (0, 1)"

definition delay_down :: call where
  "delay_down = trigger_call (0, 0) (1, 0)"

definition released :: call where
  "released = trigger_call (0, 0) (0, 0)"

definition at_limits :: app where
  "at_limits = (ExampleApp raw_app)\<lparr>lagNum := 59, delayNum := 10\<rparr>"

text \<open>An invocation for the left eye during which the right thumbstick is pushed fully to
  the right.\<close>

definition stick_right :: call where
  "stick_right = \<lparr>headPose = mat4_1, whichEye = 0, handPosition = vec3_1,
     inputState = Some (idle\<lparr>Thumbstick := ((0, 0), (1, 0))\<rparr>)\<rparr>"

text \<open>An invocation during which neither hand trigger is pressed (or the controller cannot
  be read), and the state after construction with the render delay set to 3.\<close>

definition hand_triggers_released :: "call \<Rightarrow> bool" where
  "hand_triggers_released c =
     (case inputState c of
        None \<Rightarrow> True
      | Some i \<Rightarrow> fst (HandTrigger i) \<le> 0.5 \<and> snd (HandTrigger i) \<le> 0.5)"

definition delay3 :: app where
  "delay3 = (ExampleApp raw_app)\<lparr>delayNum := 3\<rparr>"

text \<open>An invocation during which button B is down (or the controller cannot be read), one
  during which it is up (or the controller cannot be read), a left-eye invocation with
  button B down or up and the head at \<open>pose_x t\<close>, and the state after construction
  with the view mode at 2.\<close>

definition b_held :: "call \<Rightarrow> bool" where
  "b_held c = (case inputState c of None \<Rightarrow> True | Some i \<Rightarrow> ovrButton_B \<in> Buttons i)"

definition b_released :: "call \<Rightarrow> bool" where
  "b_released c = (case inputState c of None \<Rightarrow> True | Some i \<Rightarrow> ovrButton_B \<notin> Buttons i)"

definition b_call :: "bool \<Rightarrow> real \<Rightarrow> call" where
  "b_call down t = \<lparr>headPose = pose_x t, whichEye = 0, handPosition = vec3_1,
     inputState = Some (idle\<lparr>Buttons := (if down then {ovrButton_B} else {})\<rparr>)\<rparr>"

definition mode2 :: app where
  "mode2 = (ExampleApp raw_app)\<lparr>b_pressed := 2\<rparr>"

text \<open>A frame in stereo mode: button A is up, the head is at \<open>pose_x a\<close> and
  \<open>pose_x b\<close> for the two eyes, and the two invocations of the frame read the hand at
  \<open>(a, 0, 0)\<close> and at \<open>(b, 0, 0)\<close> and the controller in state \<open>i\<close>. In \<open>lag_pressed\<close> the
  right index trigger is down.\<close>

definition stereo_frame :: "ovrInputState \<Rightarrow> real \<Rightarrow> real \<Rightarrow> frame" where
  "stereo_frame i a b = \<lparr>eyePoses = (pose_x a, pose_x b), drawInput = Some idle,
     firstRead = ((a, 0, 0), Some i), secondRead = ((b, 0, 0), Some i)\<rparr>"

definition lag_pressed :: ovrInputState where
  "lag_pressed = idle\<lparr>IndexTrigger := (0, 1)\<rparr>"

section \<open>Facts about the model\<close>

subsection \<open>Remainders and deque operations\<close>

text \<open>On non-negative operands the truncating remainder is \<open>mod\<close>; on a history of 60
  entries the pop-and-push pair and the lagged read are defined.\<close>

lemma c_rem_nonneg: "0 \<le> a \<Longrightarrow> 0 < b \<Longrightarrow> c_rem a b = a mod b"
  by (cases "a = 0") (simp_all add: c_rem_def)

lemma recordPose_Some: "buf \<noteq> [] \<Longrightarrow> recordPose buf v = Some (tl buf @ [v])"
  by (cases buf) (simp_all add: recordPose_def pop_front_def push_back_def)

lemma recordPose_60: "length buf = 60 \<Longrightarrow> recordPose buf v = Some (tl buf @ [v])"
  by (rule recordPose_Some) auto

lemma retrieveLagged_Some:
  "length buf = 60 \<Longrightarrow> 0 \<le> l \<Longrightarrow> l \<le> 59 \<Longrightarrow> retrieveLagged buf l = Some (buf ! nat (59 - l))"
  by (simp add: retrieveLagged_def deque_at_def algebra_simps)

lemma app_inv_ExampleApp: "app_inv (ExampleApp u)"
  by (simp add: app_inv_def buffers60_def ExampleApp_def)

lemma record_histories_Some:
  "buffers60 s \<Longrightarrow>
   record_histories s c = Some (s\<lparr>
     lringBuffer := (if whichEye c = 0 then tl (lringBuffer s) @ [headPose c] else lringBuffer s),
     rringBuffer := (if whichEye c = 1 then tl (rringBuffer s) @ [headPose c] else rringBuffer s),
     cringBuffer := tl (cringBuffer s) @ [handPosition c]\<rparr>)"
  by (simp add: record_histories_def buffers60_def recordPose_60)

subsection \<open>What each statement leaves alone\<close>

text \<open>For every block of the input handling and every statement of the delay logic, the
  members it does not assign.\<close>

lemma button_x_frame [simp]:
  "a_pressed (button_x i s) = a_pressed s"
  "a_hasPressed (button_x i s) = a_hasPressed s"
  "iod (button_x i s) = iod s"
  "hmdToEyeX (button_x i s) = hmdToEyeX s"
  "cubeScale (button_x i s) = cubeScale s"
  "b_pressed (button_x i s) = b_pressed s"
  "b_hasPressed (button_x i s) = b_hasPressed s"
  "leftIndexP (button_x i s) = leftIndexP s"
  "rightIndexP (button_x i s) = rightIndexP s"
  "leftThumbP (button_x i s) = leftThumbP s"
  "rightThumbP (button_x i s) = rightThumbP s"
  "ldelayRender (button_x i s) = ldelayRender s"
  "rdelayRender (button_x i s) = rdelayRender s"
  "leftCurFrame (button_x i s) = leftCurFrame s"
  "rightCurFrame (button_x i s) = rightCurFrame s"
  "renderFrame (button_x i s) = renderFrame s"
  "iodOffset (button_x i s) = iodOffset s"
  "rotation (button_x i s) = rotation s"
  "position (button_x i s) = position s"
  "lringBuffer (button_x i s) = lringBuffer s"
  "rringBuffer (button_x i s) = rringBuffer s"
  "cringBuffer (button_x i s) = cringBuffer s"
  "lagNum (button_x i s) = lagNum s"
  "delayNum (button_x i s) = delayNum s"
  "drawView (button_x i s) = drawView s"
  by (simp_all add: button_x_def Let_def)

lemma left_stick_frame [simp]:
  "a_pressed (left_stick i s) = a_pressed s"
  "a_hasPressed (left_stick i s) = a_hasPressed s"
  "iod (left_stick i s) = iod s"
  "hmdToEyeX (left_stick i s) = hmdToEyeX s"
  "x_pressed (left_stick i s) = x_pressed s"
  "x_hasPressed (left_stick i s) = x_hasPressed s"
  "b_pressed (left_stick i s) = b_pressed s"
  "b_hasPressed (left_stick i s) = b_hasPressed s"
  "leftIndexP (left_stick i s) = leftIndexP s"
  "rightIndexP (left_stick i s) = rightIndexP s"
  "leftThumbP (left_stick i s) = leftThumbP s"
  "rightThumbP (left_stick i s) = rightThumbP s"
  "ldelayRender (left_stick i s) = ldelayRender s"
  "rdelayRender (left_stick i s) = rdelayRender s"
  "leftCurFrame (left_stick i s) = leftCurFrame s"
  "rightCurFrame (left_stick i s) = rightCurFrame s"
  "renderFrame (left_stick i s) = renderFrame s"
  "iodOffset (left_stick i s) = iodOffset s"
  "rotation (left_stick i s) = rotation s"
  "position (left_stick i s) = position s"
  "lringBuffer (left_stick i s) = lringBuffer s"
  "rringBuffer (left_stick i s) = rringBuffer s"
  "cringBuffer (left_stick i s) = cringBuffer s"
  "lagNum (left_stick i s) = lagNum s"
  "delayNum (left_stick i s) = delayNum s"
  "drawView (left_stick i s) = drawView s"
  by (simp_all add: left_stick_def Let_def)

lemma button_b_frame [simp]:
  "a_pressed (button_b I hp i s) = a_pressed s"
  "a_hasPressed (button_b I hp i s) = a_hasPressed s"
  "iod (button_b I hp i s) = iod s"
  "hmdToEyeX (button_b I hp i s) = hmdToEyeX s"
  "cubeScale (button_b I hp i s) = cubeScale s"
  "x_pressed (button_b I hp i s) = x_pressed s"
  "x_hasPressed (button_b I hp i s) = x_hasPressed s"
  "leftIndexP (button_b I hp i s) = leftIndexP s"
  "rightIndexP (button_b I hp i s) = rightIndexP s"
  "leftThumbP (button_b I hp i s) = leftThumbP s"
  "rightThumbP (button_b I hp i s) = rightThumbP s"
  "ldelayRender (button_b I hp i s) = ldelayRender s"
  "rdelayRender (button_b I hp i s) = rdelayRender s"
  "leftCurFrame (button_b I hp i s) = leftCurFrame s"
  "rightCurFrame (button_b I hp i s) = rightCurFrame s"
  "renderFrame (button_b I hp i s) = renderFrame s"
  "iodOffset (button_b I hp i s) = iodOffset s"
  "lringBuffer (button_b I hp i s) = lringBuffer s"
  "rringBuffer (button_b I hp i s) = rringBuffer s"
  "cringBuffer (button_b I hp i s) = cringBuffer s"
  "lagNum (button_b I hp i s) = lagNum s"
  "delayNum (button_b I hp i s) = delayNum s"
  "drawView (button_b I hp i s) = drawView s"
  by (simp_all add: button_b_def Let_def)

lemma right_stick_frame [simp]:
  "a_pressed (right_stick i s) = a_pressed s"
  "a_hasPressed (right_stick i s) = a_hasPressed s"
  "iod (right_stick i s) = iod s"
  "cubeScale (right_stick i s) = cubeScale s"
  "x_pressed (right_stick i s) = x_pressed s"
  "x_hasPressed (right_stick i s) = x_hasPressed s"
  "b_pressed (right_stick i s) = b_pressed s"
  "b_hasPressed (right_stick i s) = b_hasPressed s"
  "leftIndexP (right_stick i s) = leftIndexP s"
  "rightIndexP (right_stick i s) = rightIndexP s"
  "leftThumbP (right_stick i s) = leftThumbP s"
  "rightThumbP (right_stick i s) = rightThumbP s"
  "ldelayRender (right_stick i s) = ldelayRender s"
  "rdelayRender (right_stick i s) = rdelayRender s"
  "leftCurFrame (right_stick i s) = leftCurFrame s"
  "rightCurFrame (right_stick i s) = rightCurFrame s"
  "renderFrame (right_stick i s) = renderFrame s"
  "rotation (right_stick i s) = rotation s"
  "position (right_stick i s) = position s"
  "lringBuffer (right_stick i s) = lringBuffer s"
  "rringBuffer (right_stick i s) = rringBuffer s"
  "cringBuffer (right_stick i s) = cringBuffer s"
  "lagNum (right_stick i s) = lagNum s"
  "delayNum (right_stick i s) = delayNum s"
  "drawView (right_stick i s) = drawView s"
  by (simp_all add: right_stick_def setIOD_def Let_def)

lemma index_triggers_frame [simp]:
  "a_pressed (index_triggers i s) = a_pressed s"
  "a_hasPressed (index_triggers i s) = a_hasPressed s"
  "iod (index_triggers i s) = iod s"
  "hmdToEyeX (index_triggers i s) = hmdToEyeX s"
  "cubeScale (index_triggers i s) = cubeScale s"
  "x_pressed (index_triggers i s) = x_pressed s"
  "x_hasPressed (index_triggers i s) = x_hasPressed s"
  "b_pressed (index_triggers i s) = b_pressed s"
  "b_hasPressed (index_triggers i s) = b_hasPressed s"
  "leftThumbP (index_triggers i s) = leftThumbP s"
  "rightThumbP (index_triggers i s) = rightThumbP s"
  "ldelayRender (index_triggers i s) = ldelayRender s"
  "rdelayRender (index_triggers i s) = rdelayRender s"
  "leftCurFrame (index_triggers i s) = leftCurFrame s"
  "rightCurFrame (index_triggers i s) = rightCurFrame s"
  "renderFrame (index_triggers i s) = renderFrame s"
  "iodOffset (index_triggers i s) = iodOffset s"
  "rotation (index_triggers i s) = rotation s"
  "position (index_triggers i s) = position s"
  "lringBuffer (index_triggers i s) = lringBuffer s"
  "rringBuffer (index_triggers i s) = rringBuffer s"
  "cringBuffer (index_triggers i s) = cringBuffer s"
  "delayNum (index_triggers i s) = delayNum s"
  "drawView (index_triggers i s) = drawView s"
  by (simp_all add: index_triggers_def Let_def)

lemma hand_triggers_frame [simp]:
  "a_pressed (hand_triggers i s) = a_pressed s"
  "a_hasPressed (hand_triggers i s) = a_hasPressed s"
  "iod (hand_triggers i s) = iod s"
  "hmdToEyeX (hand_triggers i s) = hmdToEyeX s"
  "cubeScale (hand_triggers i s) = cubeScale s"
  "x_pressed (hand_triggers i s) = x_pressed s"
  "x_hasPressed (hand_triggers i s) = x_hasPressed s"
  "b_pressed (hand_triggers i s) = b_pressed s"
  "b_hasPressed (hand_triggers i s) = b_hasPressed s"
  "leftIndexP (hand_triggers i s) = leftIndexP s"
  "rightIndexP (hand_triggers i s) = rightIndexP s"
  "ldelayRender (hand_triggers i s) = ldelayRender s"
  "rdelayRender (hand_triggers i s) = rdelayRender s"
  "leftCurFrame (hand_triggers i s) = leftCurFrame s"
  "rightCurFrame (hand_triggers i s) = rightCurFrame s"
  "renderFrame (hand_triggers i s) = renderFrame s"
  "iodOffset (hand_triggers i s) = iodOffset s"
  "rotation (hand_triggers i s) = rotation s"
  "position (hand_triggers i s) = position s"
  "lringBuffer (hand_triggers i s) = lringBuffer s"
  "rringBuffer (hand_triggers i s) = rringBuffer s"
  "cringBuffer (hand_triggers i s) = cringBuffer s"
  "lagNum (hand_triggers i s) = lagNum s"
  "drawView (hand_triggers i s) = drawView s"
  by (simp_all add: hand_triggers_def Let_def)

lemma capture_left_frame [simp]:
  "a_pressed (capture_left c s) = a_pressed s"
  "a_hasPressed (capture_left c s) = a_hasPressed s"
  "iod (capture_left c s) = iod s"
  "hmdToEyeX (capture_left c s) = hmdToEyeX s"
  "cubeScale (capture_left c s) = cubeScale s"
  "x_pressed (capture_left c s) = x_pressed s"
  "x_hasPressed (capture_left c s) = x_hasPressed s"
  "b_pressed (capture_left c s) = b_pressed s"
  "b_hasPressed (capture_left c s) = b_hasPressed s"
  "leftIndexP (capture_left c s) = leftIndexP s"
  "rightIndexP (capture_left c s) = rightIndexP s"
  "leftThumbP (capture_left c s) = leftThumbP s"
  "rightThumbP (capture_left c s) = rightThumbP s"
  "ldelayRender (capture_left c s) = ldelayRender s"
  "rdelayRender (capture_left c s) = rdelayRender s"
  "rightCurFrame (capture_left c s) = rightCurFrame s"
  "iodOffset (capture_left c s) = iodOffset s"
  "rotation (capture_left c s) = rotation s"
  "position (capture_left c s) = position s"
  "lringBuffer (capture_left c s) = lringBuffer s"
  "rringBuffer (capture_left c s) = rringBuffer s"
  "cringBuffer (capture_left c s) = cringBuffer s"
  "lagNum (capture_left c s) = lagNum s"
  "delayNum (capture_left c s) = delayNum s"
  "drawView (capture_left c s) = drawView s"
  by (simp_all add: capture_left_def Let_def)

lemma capture_right_frame [simp]:
  "a_pressed (capture_right c s) = a_pressed s"
  "a_hasPressed (capture_right c s) = a_hasPressed s"
  "iod (capture_right c s) = iod s"
  "hmdToEyeX (capture_right c s) = hmdToEyeX s"
  "cubeScale (capture_right c s) = cubeScale s"
  "x_pressed (capture_right c s) = x_pressed s"
  "x_hasPressed (capture_right c s) = x_hasPressed s"
  "b_pressed (capture_right c s) = b_pressed s"
  "b_hasPressed (capture_right c s) = b_hasPressed s"
  "leftIndexP (capture_right c s) = leftIndexP s"
  "rightIndexP (capture_right c s) = rightIndexP s"
  "leftThumbP (capture_right c s) = leftThumbP s"
  "rightThumbP (capture_right c s) = rightThumbP s"
  "ldelayRender (capture_right c s) = ldelayRender s"
  "rdelayRender (capture_right c s) = rdelayRender s"
  "leftCurFrame (capture_right c s) = leftCurFrame s"
  "iodOffset (capture_right c s) = iodOffset s"
  "rotation (capture_right c s) = rotation s"
  "position (capture_right c s) = position s"
  "lringBuffer (capture_right c s) = lringBuffer s"
  "rringBuffer (capture_right c s) = rringBuffer s"
  "cringBuffer (capture_right c s) = cringBuffer s"
  "lagNum (capture_right c s) = lagNum s"
  "delayNum (capture_right c s) = delayNum s"
  "drawView (capture_right c s) = drawView s"
  by (simp_all add: capture_right_def Let_def)

lemma hold_left_frame [simp]:
  "a_pressed (hold_left c s) = a_pressed s"
  "a_hasPressed (hold_left c s) = a_hasPressed s"
  "iod (hold_left c s) = iod s"
  "hmdToEyeX (hold_left c s) = hmdToEyeX s"
  "cubeScale (hold_left c s) = cubeScale s"
  "x_pressed (hold_left c s) = x_pressed s"
  "x_hasPressed (hold_left c s) = x_hasPressed s"
  "b_pressed (hold_left c s) = b_pressed s"
  "b_hasPressed (hold_left c s) = b_hasPressed s"
  "leftIndexP (hold_left c s) = leftIndexP s"
  "rightIndexP (hold_left c s) = rightIndexP s"
  "leftThumbP (hold_left c s) = leftThumbP s"
  "rightThumbP (hold_left c s) = rightThumbP s"
  "rdelayRender (hold_left c s) = rdelayRender s"
  "leftCurFrame (hold_left c s) = leftCurFrame s"
  "rightCurFrame (hold_left c s) = rightCurFrame s"
  "iodOffset (hold_left c s) = iodOffset s"
  "rotation (hold_left c s) = rotation s"
  "position (hold_left c s) = position s"
  "lringBuffer (hold_left c s) = lringBuffer s"
  "rringBuffer (hold_left c s) = rringBuffer s"
  "cringBuffer (hold_left c s) = cringBuffer s"
  "lagNum (hold_left c s) = lagNum s"
  "delayNum (hold_left c s) = delayNum s"
  "drawView (hold_left c s) = drawView s"
  by (simp_all add: hold_left_def Let_def)

lemma hold_right_frame [simp]:
  "a_pressed (hold_right c s) = a_pressed s"
  "a_hasPressed (hold_right c s) = a_hasPressed s"
  "iod (hold_right c s) = iod s"
  "hmdToEyeX (hold_right c s) = hmdToEyeX s"
  "cubeScale (hold_right c s) = cubeScale s"
  "x_pressed (hold_right c s) = x_pressed s"
  "x_hasPressed (hold_right c s) = x_hasPressed s"
  "b_pressed (hold_right c s) = b_pressed s"
  "b_hasPressed (hold_right c s) = b_hasPressed s"
  "leftIndexP (hold_right c s) = leftIndexP s"
  "rightIndexP (hold_right c s) = rightIndexP s"
  "leftThumbP (hold_right c s) = leftThumbP s"
  "rightThumbP (hold_right c s) = rightThumbP s"
  "ldelayRender (hold_right c s) = ldelayRender s"
  "leftCurFrame (hold_right c s) = leftCurFrame s"
  "rightCurFrame (hold_right c s) = rightCurFrame s"
  "iodOffset (hold_right c s) = iodOffset s"
  "rotation (hold_right c s) = rotation s"
  "position (hold_right c s) = position s"
  "lringBuffer (hold_right c s) = lringBuffer s"
  "rringBuffer (hold_right c s) = rringBuffer s"
  "cringBuffer (hold_right c s) = cringBuffer s"
  "lagNum (hold_right c s) = lagNum s"
  "delayNum (hold_right c s) = delayNum s"
  "drawView (hold_right c s) = drawView s"
  by (simp_all add: hold_right_def Let_def)

lemma reset_left_frame [simp]:
  "a_pressed (reset_left s) = a_pressed s"
  "a_hasPressed (reset_left s) = a_hasPressed s"
  "iod (reset_left s) = iod s"
  "hmdToEyeX (reset_left s) = hmdToEyeX s"
  "cubeScale (reset_left s) = cubeScale s"
  "x_pressed (reset_left s) = x_pressed s"
  "x_hasPressed (reset_left s) = x_hasPressed s"
  "b_pressed (reset_left s) = b_pressed s"
  "b_hasPressed (reset_left s) = b_hasPressed s"
  "leftIndexP (reset_left s) = leftIndexP s"
  "rightIndexP (reset_left s) = rightIndexP s"
  "leftThumbP (reset_left s) = leftThumbP s"
  "rightThumbP (reset_left s) = rightThumbP s"
  "rdelayRender (reset_left s) = rdelayRender s"
  "leftCurFrame (reset_left s) = leftCurFrame s"
  "rightCurFrame (reset_left s) = rightCurFrame s"
  "renderFrame (reset_left s) = renderFrame s"
  "iodOffset (reset_left s) = iodOffset s"
  "rotation (reset_left s) = rotation s"
  "position (reset_left s) = position s"
  "lringBuffer (reset_left s) = lringBuffer s"
  "rringBuffer (reset_left s) = rringBuffer s"
  "cringBuffer (reset_left s) = cringBuffer s"
  "lagNum (reset_left s) = lagNum s"
  "delayNum (reset_left s) = delayNum s"
  "drawView (reset_left s) = drawView s"
  by (simp_all add: reset_left_def Let_def)

lemma reset_right_frame [simp]:
  "a_pressed (reset_right s) = a_pressed s"
  "a_hasPressed (reset_right s) = a_hasPressed s"
  "iod (reset_right s) = iod s"
  "hmdToEyeX (reset_right s) = hmdToEyeX s"
  "cubeScale (reset_right s) = cubeScale s"
  "x_pressed (reset_right s) = x_pressed s"
  "x_hasPressed (reset_right s) = x_hasPressed s"
  "b_pressed (reset_right s) = b_pressed s"
  "b_hasPressed (reset_right s) = b_hasPressed s"
  "leftIndexP (reset_right s) = leftIndexP s"
  "rightIndexP (reset_right s) = rightIndexP s"
  "leftThumbP (reset_right s) = leftThumbP s"
  "rightThumbP (reset_right s) = rightThumbP s"
  "ldelayRender (reset_right s) = ldelayRender s"
  "leftCurFrame (reset_right s) = leftCurFrame s"
  "rightCurFrame (reset_right s) = rightCurFrame s"
  "renderFrame (reset_right s) = renderFrame s"
  "iodOffset (reset_right s) = iodOffset s"
  "rotation (reset_right s) = rotation s"
  "position (reset_right s) = position s"
  "lringBuffer (reset_right s) = lringBuffer s"
  "rringBuffer (reset_right s) = rringBuffer s"
  "cringBuffer (reset_right s) = cringBuffer s"
  "lagNum (reset_right s) = lagNum s"
  "delayNum (reset_right s) = delayNum s"
  "drawView (reset_right s) = drawView s"
  by (simp_all add: reset_right_def Let_def)

lemma delay_steps_result:
  "leftCurFrame (capture_left c s) =
     (if ldelayRender s = 0 \<and> whichEye c = 0 then headPose c else leftCurFrame s)"
  "renderFrame (capture_left c s) =
     (if ldelayRender s = 0 \<and> whichEye c = 0 then headPose c else renderFrame s)"
  "rightCurFrame (capture_right c s) =
     (if rdelayRender s = 0 \<and> whichEye c = 1 then headPose c else rightCurFrame s)"
  "renderFrame (capture_right c s) =
     (if rdelayRender s = 0 \<and> whichEye c = 1 then headPose c else renderFrame s)"
  "renderFrame (hold_left c s) =
     (if ldelayRender s < delayNum s \<and> whichEye c = 0 then leftCurFrame s else renderFrame s)"
  "ldelayRender (hold_left c s) =
     (if ldelayRender s < delayNum s \<and> whichEye c = 0 then ldelayRender s + 1 else ldelayRender s)"
  "renderFrame (hold_right c s) =
     (if rdelayRender s < delayNum s \<and> whichEye c = 1 then rightCurFrame s else renderFrame s)"
  "rdelayRender (hold_right c s) =
     (if rdelayRender s < delayNum s \<and> whichEye c = 1 then rdelayRender s + 1 else rdelayRender s)"
  "ldelayRender (reset_left s) = (if ldelayRender s \<ge> delayNum s then 0 else ldelayRender s)"
  "rdelayRender (reset_right s) = (if rdelayRender s \<ge> delayNum s then 0 else rdelayRender s)"
  by (simp_all add: capture_left_def capture_right_def hold_left_def hold_right_def
      reset_left_def reset_right_def Let_def)

lemma delay_step_frame [simp]:
  "a_pressed (delay_step c s) = a_pressed s"
  "a_hasPressed (delay_step c s) = a_hasPressed s"
  "iod (delay_step c s) = iod s"
  "hmdToEyeX (delay_step c s) = hmdToEyeX s"
  "cubeScale (delay_step c s) = cubeScale s"
  "x_pressed (delay_step c s) = x_pressed s"
  "x_hasPressed (delay_step c s) = x_hasPressed s"
  "b_pressed (delay_step c s) = b_pressed s"
  "b_hasPressed (delay_step c s) = b_hasPressed s"
  "leftIndexP (delay_step c s) = leftIndexP s"
  "rightIndexP (delay_step c s) = rightIndexP s"
  "leftThumbP (delay_step c s) = leftThumbP s"
  "rightThumbP (delay_step c s) = rightThumbP s"
  "iodOffset (delay_step c s) = iodOffset s"
  "rotation (delay_step c s) = rotation s"
  "position (delay_step c s) = position s"
  "lringBuffer (delay_step c s) = lringBuffer s"
  "rringBuffer (delay_step c s) = rringBuffer s"
  "cringBuffer (delay_step c s) = cringBuffer s"
  "lagNum (delay_step c s) = lagNum s"
  "delayNum (delay_step c s) = delayNum s"
  "drawView (delay_step c s) = drawView s"
  by (simp_all add: delay_step_def)

lemma handle_input_frame [simp]:
  "a_pressed (handle_input I c s) = a_pressed s"
  "a_hasPressed (handle_input I c s) = a_hasPressed s"
  "iod (handle_input I c s) = iod s"
  "ldelayRender (handle_input I c s) = ldelayRender s"
  "rdelayRender (handle_input I c s) = rdelayRender s"
  "leftCurFrame (handle_input I c s) = leftCurFrame s"
  "rightCurFrame (handle_input I c s) = rightCurFrame s"
  "renderFrame (handle_input I c s) = renderFrame s"
  "lringBuffer (handle_input I c s) = lringBuffer s"
  "rringBuffer (handle_input I c s) = rringBuffer s"
  "cringBuffer (handle_input I c s) = cringBuffer s"
  "drawView (handle_input I c s) = drawView s"
  by (simp_all add: handle_input_def split: option.splits)


subsection \<open>The counters stay in range\<close>

lemma c_rem_range: "0 \<le> a \<Longrightarrow> 0 < b \<Longrightarrow> 0 \<le> c_rem a b \<and> c_rem a b < b"
  by (simp add: c_rem_nonneg)

lemma c_rem_60: "0 \<le> a \<Longrightarrow> 0 \<le> c_rem a 60" "0 \<le> a \<Longrightarrow> c_rem a 60 \<le> 59"
  using c_rem_range [of a 60] by simp_all

lemma index_triggers_range:
  "0 \<le> lagNum s \<Longrightarrow> lagNum s \<le> 59 \<Longrightarrow>
   0 \<le> lagNum (index_triggers i s) \<and> lagNum (index_triggers i s) \<le> 59"
  by (simp add: index_triggers_def Let_def c_rem_60)

lemma hand_triggers_range:
  "0 \<le> delayNum s \<Longrightarrow> delayNum s \<le> 10 \<Longrightarrow>
   0 \<le> delayNum (hand_triggers i s) \<and> delayNum (hand_triggers i s) \<le> 10"
  by (simp add: hand_triggers_def Let_def)

lemma button_x_range:
  "0 \<le> x_pressed s \<Longrightarrow> x_pressed s \<le> 2 \<Longrightarrow>
   0 \<le> x_pressed (button_x i s) \<and> x_pressed (button_x i s) \<le> 2"
  by (simp add: button_x_def Let_def c_rem_nonneg) presburger

lemma button_b_range:
  "0 \<le> b_pressed s \<Longrightarrow> b_pressed s \<le> 3 \<Longrightarrow>
   0 \<le> b_pressed (button_b I hp i s) \<and> b_pressed (button_b I hp i s) \<le> 3"
  by (simp add: button_b_def Let_def c_rem_nonneg) presburger

lemma handle_input_lagNum:
  "0 \<le> lagNum s \<Longrightarrow> lagNum s \<le> 59 \<Longrightarrow>
   0 \<le> lagNum (handle_input I c s) \<and> lagNum (handle_input I c s) \<le> 59"
  using index_triggers_range by (simp add: handle_input_def split: option.splits)

lemma handle_input_delayNum:
  "0 \<le> delayNum s \<Longrightarrow> delayNum s \<le> 10 \<Longrightarrow>
   0 \<le> delayNum (handle_input I c s) \<and> delayNum (handle_input I c s) \<le> 10"
  using hand_triggers_range by (simp add: handle_input_def split: option.splits)

lemma handle_input_x_pressed:
  "0 \<le> x_pressed s \<Longrightarrow> x_pressed s \<le> 2 \<Longrightarrow>
   0 \<le> x_pressed (handle_input I c s) \<and> x_pressed (handle_input I c s) \<le> 2"
  using button_x_range by (simp add: handle_input_def split: option.splits)

lemma handle_input_b_pressed:
  "0 \<le> b_pressed s \<Longrightarrow> b_pressed s \<le> 3 \<Longrightarrow>
   0 \<le> b_pressed (handle_input I c s) \<and> b_pressed (handle_input I c s) \<le> 3"
  using button_b_range by (simp add: handle_input_def split: option.splits)

lemma handle_input_inv: "app_inv s \<Longrightarrow> app_inv (handle_input I c s)"
  using handle_input_lagNum [of s I c] handle_input_delayNum [of s I c]
    handle_input_x_pressed [of s I c] handle_input_b_pressed [of s I c]
  by (simp add: app_inv_def buffers60_def)

lemma delay_step_counters:
  "0 \<le> ldelayRender s \<Longrightarrow> ldelayRender s \<le> 10 \<Longrightarrow> 0 \<le> rdelayRender s \<Longrightarrow>
   rdelayRender s \<le> 10 \<Longrightarrow> delayNum s \<le> 10 \<Longrightarrow>
   0 \<le> ldelayRender (delay_step c s) \<and> ldelayRender (delay_step c s) \<le> 10 \<and>
   0 \<le> rdelayRender (delay_step c s) \<and> rdelayRender (delay_step c s) \<le> 10"
  by (simp add: delay_step_def delay_steps_result)

lemma delay_step_inv: "app_inv s \<Longrightarrow> app_inv (delay_step c s)"
  using delay_step_counters [of s c] by (simp add: app_inv_def buffers60_def)

subsection \<open>One invocation in closed form\<close>

text \<open>Under the invariant no deque operation of \<^verbatim>\<open>renderScene\<close> is undefined, and the
  invocation keeps the invariant.\<close>

lemma lag_lookup_Some:
  "buffers60 s \<Longrightarrow> 0 \<le> lagNum s \<Longrightarrow> lagNum s \<le> 59 \<Longrightarrow>
   lag_lookup s c =
     Some (if whichEye c = 1 then rringBuffer s ! nat (59 - lagNum s)
           else if whichEye c = 0 then lringBuffer s ! nat (59 - lagNum s)
           else headPose c,
           cringBuffer s ! nat (59 - lagNum s))"
  by (simp add: lag_lookup_def buffers60_def retrieveLagged_Some)

lemma record_histories_inv:
  "app_inv s \<Longrightarrow> app_inv (s\<lparr>
     lringBuffer := (if whichEye c = 0 then tl (lringBuffer s) @ [headPose c] else lringBuffer s),
     rringBuffer := (if whichEye c = 1 then tl (rringBuffer s) @ [headPose c] else rringBuffer s),
     cringBuffer := tl (cringBuffer s) @ [handPosition c]\<rparr>)"
  by (simp add: app_inv_def buffers60_def)

lemma renderScene_Some:
  assumes "app_inv s"
  shows "renderScene I s c =
     (let s2 = handle_input I c (s\<lparr>
            lringBuffer := (if whichEye c = 0 then tl (lringBuffer s) @ [headPose c] else lringBuffer s),
            rringBuffer := (if whichEye c = 1 then tl (rringBuffer s) @ [headPose c] else rringBuffer s),
            cringBuffer := tl (cringBuffer s) @ [handPosition c]\<rparr>);
          k = nat (59 - lagNum s2);
          lagFrame = (if whichEye c = 1 then rringBuffer s2 ! k
                      else if whichEye c = 0 then lringBuffer s2 ! k else headPose c);
          s3 = delay_step c s2;
          outputFrame = select_output s3 c lagFrame;
          dv = Scene_render (drawView s3) (I outputFrame) (b_pressed s3) (rotation s3) (position s3)
      in Some (s3\<lparr>drawView := dv\<rparr>,
               \<lparr>out_lagFrame = lagFrame, out_outputFrame = outputFrame,
                out_right = cringBuffer s2 ! k, out_drawView = dv\<rparr>))"
proof -
  let ?h = "s\<lparr>
            lringBuffer := (if whichEye c = 0 then tl (lringBuffer s) @ [headPose c] else lringBuffer s),
            rringBuffer := (if whichEye c = 1 then tl (rringBuffer s) @ [headPose c] else rringBuffer s),
            cringBuffer := tl (cringBuffer s) @ [handPosition c]\<rparr>"
  from assms have b: "buffers60 s" by (simp add: app_inv_def)
  have "app_inv (handle_input I c ?h)"
    using assms by (intro handle_input_inv record_histories_inv)
  then have l: "buffers60 (handle_input I c ?h)" "0 \<le> lagNum (handle_input I c ?h)"
    "lagNum (handle_input I c ?h) \<le> 59"
    by (simp_all add: app_inv_def)
  show ?thesis
    unfolding renderScene_def record_histories_Some [OF b]
    by (simp only: option.case Let_def lag_lookup_Some [OF l] prod.case)
qed

lemma app_inv_drawView [simp]: "app_inv (s\<lparr>drawView := d\<rparr>) = app_inv s"
  by (simp add: app_inv_def buffers60_def)

lemma renderScene_inv:
  assumes "app_inv s"
  shows "\<exists>s' r. renderScene I s c = Some (s', r) \<and> app_inv s'"
  using assms
  by (simp add: renderScene_Some Let_def delay_step_inv handle_input_inv record_histories_inv)

lemma renderScene_inv_dest:
  "app_inv s \<Longrightarrow> renderScene I s c = Some (s', r) \<Longrightarrow> app_inv s'"
  using renderScene_inv [of s I c] by auto

lemma renderScene_buffers:
  assumes "app_inv s" "renderScene I s c = Some (s', r)"
  shows "lringBuffer s' = (if whichEye c = 0 then tl (lringBuffer s) @ [headPose c] else lringBuffer s)"
    and "rringBuffer s' = (if whichEye c = 1 then tl (rringBuffer s) @ [headPose c] else rringBuffer s)"
    and "cringBuffer s' = tl (cringBuffer s) @ [handPosition c]"
  using assms by (auto simp: renderScene_Some Let_def)

lemma renderScene_lagFrame:
  assumes "app_inv s" "renderScene I s c = Some (s', r)"
  shows "out_lagFrame r = (if whichEye c = 1 then rringBuffer s' ! nat (59 - lagNum s')
                           else if whichEye c = 0 then lringBuffer s' ! nat (59 - lagNum s')
                           else headPose c)"
    and "out_right r = cringBuffer s' ! nat (59 - lagNum s')"
  using assms by (auto simp: renderScene_Some Let_def)

lemma renderScene_output:
  assumes "app_inv s" "renderScene I s c = Some (s', r)"
  shows "out_outputFrame r = (if 0 < delayNum s' then renderFrame s'
                              else if 0 < lagNum s' then out_lagFrame r else headPose c)"
    and "out_drawView r = Scene_render (drawView s) (I (out_outputFrame r)) (b_pressed s')
                            (rotation s') (position s')"
    and "drawView s' = out_drawView r"
  using assms by (auto simp: renderScene_Some Let_def select_output_def)

subsection \<open>Sequences of invocations and frames\<close>

lemma run_inv:
  "app_inv s \<Longrightarrow> \<exists>s' rs. run I s cs = Some (s', rs) \<and> app_inv s' \<and> length rs = length cs"
proof (induction cs arbitrary: s)
  case Nil
  then show ?case by simp
next
  case (Cons c cs)
  from renderScene_inv [OF Cons.prems, of I c]
  obtain s1 r where 1: "renderScene I s c = Some (s1, r)" "app_inv s1" by blast
  from Cons.IH [OF 1(2)]
  obtain s2 rs where 2: "run I s1 cs = Some (s2, rs)" "app_inv s2" "length rs = length cs" by blast
  from 1 2 show ?case by simp
qed

lemma run_append:
  "run I s (xs @ ys) =
     (case run I s xs of
        None \<Rightarrow> None
      | Some (s1, rs1) \<Rightarrow>
          (case run I s1 ys of None \<Rightarrow> None | Some (s2, rs2) \<Rightarrow> Some (s2, rs1 @ rs2)))"
  by (induction xs arbitrary: s) (auto split: option.splits)

lemma draw_block_inv:
  assumes "acc = Some (s, rs)" "app_inv s"
  shows "\<exists>s' rs'. draw_block I m calls acc = Some (s', rs') \<and> app_inv s'"
proof (cases "a_pressed s = m")
  case True
  from run_inv [OF assms(2), of I calls]
  obtain s1 rs1 where "run I s calls = Some (s1, rs1)" "app_inv s1" by blast
  with True assms(1) show ?thesis by (simp add: draw_block_def)
next
  case False
  with assms show ?thesis by (simp add: draw_block_def)
qed

lemma app_inv_a_hasPressed [simp]: "app_inv (s\<lparr>a_hasPressed := d\<rparr>) = app_inv s"
  by (simp add: app_inv_def buffers60_def)

lemma app_inv_a_edge:
  "app_inv s \<Longrightarrow> app_inv (s\<lparr>a_pressed := c_rem (a_pressed s + 1) 4\<rparr>)"
  using c_rem_range [of "a_pressed s + 1" 4] by (simp add: app_inv_def buffers60_def)

lemma draw_inv:
  assumes "app_inv s"
  shows "\<exists>s' rs. draw I s f = Some (s', rs) \<and> app_inv s'"
proof (cases "drawInput f")
  case None
  with assms show ?thesis by (simp add: draw_def)
next
  case (Some i)
  define s1 where "s1 = (if ovrButton_A \<in> Buttons i
                     then (if \<not> a_hasPressed s
                           then s\<lparr>a_pressed := c_rem (a_pressed s + 1) 4, a_hasPressed := True\<rparr>
                           else s)
                     else s)"
  have i1: "app_inv s1" using assms by (simp add: s1_def app_inv_a_edge)
  define b0 where "b0 = draw_block I 0
        [mk_call (fst (eyePoses f)) 0 (firstRead f), mk_call (snd (eyePoses f)) 1 (secondRead f)]
        (Some (s1, []))"
  define b1 where "b1 = draw_block I 1 [mk_call (fst (eyePoses f)) 0 (firstRead f)] b0"
  define b2 where "b2 = draw_block I 2 [mk_call (snd (eyePoses f)) 1 (firstRead f)] b1"
  define b3 where "b3 = draw_block I 3
        [mk_call (fst (eyePoses f)) (1 - 0) (firstRead f),
         mk_call (snd (eyePoses f)) (1 - 1) (secondRead f)] b2"
  from draw_block_inv [OF refl i1] obtain t0 r0 where 0: "b0 = Some (t0, r0)" "app_inv t0"
    unfolding b0_def by blast
  from draw_block_inv [OF 0] obtain t1 r1 where 1: "b1 = Some (t1, r1)" "app_inv t1"
    unfolding b1_def by blast
  from draw_block_inv [OF 1] obtain t2 r2 where 2: "b2 = Some (t2, r2)" "app_inv t2"
    unfolding b2_def by blast
  from draw_block_inv [OF 2] obtain t3 r3 where 3: "b3 = Some (t3, r3)" "app_inv t3"
    unfolding b3_def by blast
  have "draw I s f = Some (if ovrButton_A \<notin> Buttons i \<and> a_hasPressed t3
                        then t3\<lparr>a_hasPressed := False\<rparr> else t3, r3)"
    using 3(1) Some unfolding draw_def b3_def b2_def b1_def b0_def s1_def
    by (simp add: Let_def)
  with 3(2) show ?thesis by simp
qed

lemma frames_inv:
  "app_inv s \<Longrightarrow> \<exists>s' rss. frames I s fs = Some (s', rss) \<and> app_inv s'"
proof (induction fs arbitrary: s)
  case Nil
  then show ?case by simp
next
  case (Cons f fs)
  from draw_inv [OF Cons.prems, of I f]
  obtain s1 rs where 1: "draw I s f = Some (s1, rs)" "app_inv s1" by blast
  from Cons.IH [OF 1(2)]
  obtain s2 rss where 2: "frames I s1 fs = Some (s2, rss)" "app_inv s2" by blast
  from 1 2 show ?case by simp
qed


subsection \<open>The pose histories as delay lines\<close>

text \<open>After a run, an eye's history is the old history followed by the poses recorded for
  that eye, with as many entries dropped from the front as were recorded.\<close>

lemma fifo_step: "b \<noteq> [] \<Longrightarrow> drop n ((tl b @ [x]) @ ys) = drop (Suc n) (b @ x # ys)"
  by (cases b) simp_all

lemma run_lringBuffer:
  "app_inv s \<Longrightarrow> run I s cs = Some (s', rs) \<Longrightarrow>
   lringBuffer s' =
     drop (length (filter (\<lambda>c. whichEye c = 0) cs))
       (lringBuffer s @ map headPose (filter (\<lambda>c. whichEye c = 0) cs))"
proof (induction cs arbitrary: s rs)
  case Nil
  then show ?case by simp
next
  case (Cons c cs)
  from Cons.prems(2) obtain s1 r rs1 where
    1: "renderScene I s c = Some (s1, r)" and 2: "run I s1 cs = Some (s', rs1)"
    by (auto split: option.splits)
  have i1: "app_inv s1" using renderScene_inv_dest [OF Cons.prems(1) 1] .
  have ne: "lringBuffer s \<noteq> []" using Cons.prems(1) by (auto simp: app_inv_def buffers60_def)
  note IH = Cons.IH [OF i1 2]
  show ?case
  proof (cases "whichEye c = 0")
    case True
    have "lringBuffer s' =
        drop (Suc (length (filter (\<lambda>c. whichEye c = 0) cs)))
          (lringBuffer s @ headPose c # map headPose (filter (\<lambda>c. whichEye c = 0) cs))"
      using IH
      unfolding renderScene_buffers(1) [OF Cons.prems(1) 1] if_P [OF True] fifo_step [OF ne] .
    moreover have "filter (\<lambda>c. whichEye c = 0) (c # cs) = c # filter (\<lambda>c. whichEye c = 0) cs"
      using True by simp
    ultimately show ?thesis by (simp only: list.map length_Cons)
  next
    case False
    then show ?thesis
      using IH renderScene_buffers(1) [OF Cons.prems(1) 1] by simp
  qed
qed

lemma run_rringBuffer:
  "app_inv s \<Longrightarrow> run I s cs = Some (s', rs) \<Longrightarrow>
   rringBuffer s' =
     drop (length (filter (\<lambda>c. whichEye c = 1) cs))
       (rringBuffer s @ map headPose (filter (\<lambda>c. whichEye c = 1) cs))"
proof (induction cs arbitrary: s rs)
  case Nil
  then show ?case by simp
next
  case (Cons c cs)
  from Cons.prems(2) obtain s1 r rs1 where
    1: "renderScene I s c = Some (s1, r)" and 2: "run I s1 cs = Some (s', rs1)"
    by (auto split: option.splits)
  have i1: "app_inv s1" using renderScene_inv_dest [OF Cons.prems(1) 1] .
  have ne: "rringBuffer s \<noteq> []" using Cons.prems(1) by (auto simp: app_inv_def buffers60_def)
  note IH = Cons.IH [OF i1 2]
  show ?case
  proof (cases "whichEye c = 1")
    case True
    have "rringBuffer s' =
        drop (Suc (length (filter (\<lambda>c. whichEye c = 1) cs)))
          (rringBuffer s @ headPose c # map headPose (filter (\<lambda>c. whichEye c = 1) cs))"
      using IH
      unfolding renderScene_buffers(2) [OF Cons.prems(1) 1] if_P [OF True] fifo_step [OF ne] .
    moreover have "filter (\<lambda>c. whichEye c = 1) (c # cs) = c # filter (\<lambda>c. whichEye c = 1) cs"
      using True by simp
    ultimately show ?thesis by (simp only: list.map length_Cons)
  next
    case False
    then show ?thesis
      using IH renderScene_buffers(2) [OF Cons.prems(1) 1] by simp
  qed
qed

lemma run_snoc_last:
  assumes "app_inv s" "run I s (cs @ [c]) = Some (s', rs)"
  shows "\<exists>s1 rs1 r. run I s cs = Some (s1, rs1) \<and> app_inv s1 \<and>
           renderScene I s1 c = Some (s', r) \<and> rs = rs1 @ [r]"
proof -
  from run_inv [OF assms(1), of I cs]
  obtain s1 rs1 where 1: "run I s cs = Some (s1, rs1)" "app_inv s1" by blast
  from assms(2) 1 show ?thesis
    by (auto simp: run_append split: option.splits)
qed


subsection \<open>What each block computes\<close>

text \<open>The members a block assigns, as functions of the members it reads; the histories
  do not matter to the input handling.\<close>

lemma index_triggers_result:
  "lagNum (index_triggers i s) =
     (let l1 = (if fst (IndexTrigger i) > 0.5 \<and> \<not> leftIndexP s \<and> lagNum s > 0
                then c_rem (lagNum s - 1) 60 else lagNum s)
      in if snd (IndexTrigger i) > 0.5 \<and> \<not> rightIndexP s then c_rem (l1 + 1) 60 else l1)"
  "leftIndexP (index_triggers i s) = (fst (IndexTrigger i) > 0.5 \<and> (leftIndexP s \<or> lagNum s > 0))"
  "rightIndexP (index_triggers i s) = (snd (IndexTrigger i) > 0.5)"
  by (auto simp: index_triggers_def Let_def)

lemma hand_triggers_result:
  "delayNum (hand_triggers i s) =
     (let d1 = (if fst (HandTrigger i) > 0.5
                then (let t = (if \<not> leftThumbP s \<and> delayNum s > 0 then delayNum s - 1
                               else delayNum s)
                      in if t < 0 then 0 else t)
                else delayNum s)
      in if snd (HandTrigger i) > 0.5
         then (let t = (if \<not> rightThumbP s then d1 + 1 else d1) in if t \<ge> 10 then 10 else t)
         else d1)"
  "leftThumbP (hand_triggers i s) = (fst (HandTrigger i) > 0.5 \<and> (leftThumbP s \<or> delayNum s > 0))"
  "rightThumbP (hand_triggers i s) = (snd (HandTrigger i) > 0.5)"
  by (auto simp: hand_triggers_def Let_def)

lemma button_b_result:
  "b_pressed (button_b I hp i s) =
     (if ovrButton_B \<in> Buttons i \<and> \<not> b_hasPressed s then c_rem (b_pressed s + 1) 4 else b_pressed s)"
  "rotation (button_b I hp i s) =
     (if ovrButton_B \<in> Buttons i \<and> \<not> b_hasPressed s then mat3_of_mat4 (I hp) else rotation s)"
  "position (button_b I hp i s) =
     (if ovrButton_B \<in> Buttons i \<and> \<not> b_hasPressed s then col3 (I hp) else position s)"
  "b_hasPressed (button_b I hp i s) = (ovrButton_B \<in> Buttons i)"
  by (auto simp: button_b_def Let_def)

lemma right_stick_result:
  "iodOffset (right_stick i s) =
     (if ovrButton_RThumb \<in> Buttons i then 0
      else if fst (snd (Thumbstick i)) \<noteq> 0 then iodOffset s + fst (snd (Thumbstick i)) / 100
      else iodOffset s)"
  "hmdToEyeX (right_stick i s) =
     (if ovrButton_RThumb \<in> Buttons i \<or> fst (snd (Thumbstick i)) \<noteq> 0
      then hmdToEyeX (setIOD (iodOffset (right_stick i s)) s)
      else hmdToEyeX s)"
  by (auto simp: right_stick_def setIOD_def Let_def)

lemma handle_input_result:
  "lagNum (handle_input I c s) =
     (case inputState c of None \<Rightarrow> lagNum s | Some i \<Rightarrow> lagNum (index_triggers i s))"
  "leftIndexP (handle_input I c s) =
     (case inputState c of None \<Rightarrow> leftIndexP s | Some i \<Rightarrow> leftIndexP (index_triggers i s))"
  "rightIndexP (handle_input I c s) =
     (case inputState c of None \<Rightarrow> rightIndexP s | Some i \<Rightarrow> rightIndexP (index_triggers i s))"
  "delayNum (handle_input I c s) =
     (case inputState c of None \<Rightarrow> delayNum s | Some i \<Rightarrow> delayNum (hand_triggers i s))"
  "leftThumbP (handle_input I c s) =
     (case inputState c of None \<Rightarrow> leftThumbP s | Some i \<Rightarrow> leftThumbP (hand_triggers i s))"
  "rightThumbP (handle_input I c s) =
     (case inputState c of None \<Rightarrow> rightThumbP s | Some i \<Rightarrow> rightThumbP (hand_triggers i s))"
  "b_pressed (handle_input I c s) =
     (case inputState c of None \<Rightarrow> b_pressed s | Some i \<Rightarrow> b_pressed (button_b I (headPose c) i s))"
  "b_hasPressed (handle_input I c s) =
     (case inputState c of None \<Rightarrow> b_hasPressed s
      | Some i \<Rightarrow> b_hasPressed (button_b I (headPose c) i s))"
  "rotation (handle_input I c s) =
     (case inputState c of None \<Rightarrow> rotation s | Some i \<Rightarrow> rotation (button_b I (headPose c) i s))"
  "position (handle_input I c s) =
     (case inputState c of None \<Rightarrow> position s | Some i \<Rightarrow> position (button_b I (headPose c) i s))"
  "iodOffset (handle_input I c s) =
     (case inputState c of None \<Rightarrow> iodOffset s | Some i \<Rightarrow> iodOffset (right_stick i s))"
  "hmdToEyeX (handle_input I c s) =
     (case inputState c of None \<Rightarrow> hmdToEyeX s | Some i \<Rightarrow> hmdToEyeX (right_stick i s))"
  by (simp_all add: handle_input_def index_triggers_result hand_triggers_result button_b_result
      right_stick_result setIOD_def Let_def split: option.splits)

lemma handle_input_buffers:
  "lagNum (handle_input I c (s\<lparr>lringBuffer := a, rringBuffer := b, cringBuffer := d\<rparr>)) = lagNum (handle_input I c s)"
  "leftIndexP (handle_input I c (s\<lparr>lringBuffer := a, rringBuffer := b, cringBuffer := d\<rparr>)) = leftIndexP (handle_input I c s)"
  "rightIndexP (handle_input I c (s\<lparr>lringBuffer := a, rringBuffer := b, cringBuffer := d\<rparr>)) = rightIndexP (handle_input I c s)"
  "delayNum (handle_input I c (s\<lparr>lringBuffer := a, rringBuffer := b, cringBuffer := d\<rparr>)) = delayNum (handle_input I c s)"
  "leftThumbP (handle_input I c (s\<lparr>lringBuffer := a, rringBuffer := b, cringBuffer := d\<rparr>)) = leftThumbP (handle_input I c s)"
  "rightThumbP (handle_input I c (s\<lparr>lringBuffer := a, rringBuffer := b, cringBuffer := d\<rparr>)) = rightThumbP (handle_input I c s)"
  "b_pressed (handle_input I c (s\<lparr>lringBuffer := a, rringBuffer := b, cringBuffer := d\<rparr>)) = b_pressed (handle_input I c s)"
  "b_hasPressed (handle_input I c (s\<lparr>lringBuffer := a, rringBuffer := b, cringBuffer := d\<rparr>)) = b_hasPressed (handle_input I c s)"
  "rotation (handle_input I c (s\<lparr>lringBuffer := a, rringBuffer := b, cringBuffer := d\<rparr>)) = rotation (handle_input I c s)"
  "position (handle_input I c (s\<lparr>lringBuffer := a, rringBuffer := b, cringBuffer := d\<rparr>)) = position (handle_input I c s)"
  "iodOffset (handle_input I c (s\<lparr>lringBuffer := a, rringBuffer := b, cringBuffer := d\<rparr>)) = iodOffset (handle_input I c s)"
  "hmdToEyeX (handle_input I c (s\<lparr>lringBuffer := a, rringBuffer := b, cringBuffer := d\<rparr>)) = hmdToEyeX (handle_input I c s)"
  by (simp_all add: handle_input_result index_triggers_result hand_triggers_result button_b_result
      right_stick_result setIOD_def Let_def split: option.splits)

lemma renderScene_fields:
  assumes "app_inv s" "renderScene I s c = Some (s', r)"
  shows "lagNum s' = lagNum (handle_input I c s)"
    and "delayNum s' = delayNum (handle_input I c s)"
    and "b_pressed s' = b_pressed (handle_input I c s)"
    and "b_hasPressed s' = b_hasPressed (handle_input I c s)"
    and "rotation s' = rotation (handle_input I c s)"
    and "position s' = position (handle_input I c s)"
    and "iodOffset s' = iodOffset (handle_input I c s)"
    and "hmdToEyeX s' = hmdToEyeX (handle_input I c s)"
    and "leftIndexP s' = leftIndexP (handle_input I c s)"
    and "rightIndexP s' = rightIndexP (handle_input I c s)"
    and "leftThumbP s' = leftThumbP (handle_input I c s)"
    and "rightThumbP s' = rightThumbP (handle_input I c s)"
    and "iod s' = iod s"
    and "a_pressed s' = a_pressed s"
    and "a_hasPressed s' = a_hasPressed s"
  using assms by (auto simp: renderScene_Some Let_def handle_input_buffers)

lemma delay_step_result:
  "leftCurFrame (delay_step c s) =
     (if ldelayRender s = 0 \<and> whichEye c = 0 then headPose c else leftCurFrame s)"
  "rightCurFrame (delay_step c s) =
     (if rdelayRender s = 0 \<and> whichEye c = 1 then headPose c else rightCurFrame s)"
  "ldelayRender (delay_step c s) =
     (let l = (if ldelayRender s < delayNum s \<and> whichEye c = 0 then ldelayRender s + 1
               else ldelayRender s)
      in if l \<ge> delayNum s then 0 else l)"
  "rdelayRender (delay_step c s) =
     (let l = (if rdelayRender s < delayNum s \<and> whichEye c = 1 then rdelayRender s + 1
               else rdelayRender s)
      in if l \<ge> delayNum s then 0 else l)"
  "renderFrame (delay_step c s) =
     (if whichEye c = 0
      then (if ldelayRender s < delayNum s then leftCurFrame (delay_step c s)
            else if ldelayRender s = 0 then headPose c else renderFrame s)
      else if whichEye c = 1
      then (if rdelayRender s < delayNum s then rightCurFrame (delay_step c s)
            else if rdelayRender s = 0 then headPose c else renderFrame s)
      else renderFrame s)"
  by (simp_all add: delay_step_def delay_steps_result Let_def)

lemma renderScene_post:
  assumes "app_inv s" "renderScene I s c = Some (s', r)"
  shows "\<exists>dv. s' = (delay_step c (handle_input I c (s\<lparr>
            lringBuffer := (if whichEye c = 0 then tl (lringBuffer s) @ [headPose c] else lringBuffer s),
            rringBuffer := (if whichEye c = 1 then tl (rringBuffer s) @ [headPose c] else rringBuffer s),
            cringBuffer := tl (cringBuffer s) @ [handPosition c]\<rparr>)))\<lparr>drawView := dv\<rparr>"
  using assms(2) unfolding renderScene_Some [OF assms(1)] Let_def by blast

lemma renderScene_delay:
  assumes "app_inv s" "renderScene I s c = Some (s', r)"
  shows "leftCurFrame s' =
           (if ldelayRender s = 0 \<and> whichEye c = 0 then headPose c else leftCurFrame s)"
    and "rightCurFrame s' =
           (if rdelayRender s = 0 \<and> whichEye c = 1 then headPose c else rightCurFrame s)"
    and "ldelayRender s' =
           (let l = (if ldelayRender s < delayNum s' \<and> whichEye c = 0 then ldelayRender s + 1
                     else ldelayRender s)
            in if l \<ge> delayNum s' then 0 else l)"
    and "rdelayRender s' =
           (let l = (if rdelayRender s < delayNum s' \<and> whichEye c = 1 then rdelayRender s + 1
                     else rdelayRender s)
            in if l \<ge> delayNum s' then 0 else l)"
    and "renderFrame s' =
           (if whichEye c = 0
            then (if ldelayRender s < delayNum s' then leftCurFrame s'
                  else if ldelayRender s = 0 then headPose c else renderFrame s)
            else if whichEye c = 1
            then (if rdelayRender s < delayNum s' then rightCurFrame s'
                  else if rdelayRender s = 0 then headPose c else renderFrame s)
            else renderFrame s)"
proof -
  from renderScene_post [OF assms] obtain dv where
    s': "s' = (delay_step c (handle_input I c (s\<lparr>
            lringBuffer := (if whichEye c = 0 then tl (lringBuffer s) @ [headPose c] else lringBuffer s),
            rringBuffer := (if whichEye c = 1 then tl (rringBuffer s) @ [headPose c] else rringBuffer s),
            cringBuffer := tl (cringBuffer s) @ [handPosition c]\<rparr>)))\<lparr>drawView := dv\<rparr>"
    by blast
  show "leftCurFrame s' =
           (if ldelayRender s = 0 \<and> whichEye c = 0 then headPose c else leftCurFrame s)"
    unfolding s' by (simp add: delay_step_result)
  show "rightCurFrame s' =
           (if rdelayRender s = 0 \<and> whichEye c = 1 then headPose c else rightCurFrame s)"
    unfolding s' by (simp add: delay_step_result)
  show "ldelayRender s' =
           (let l = (if ldelayRender s < delayNum s' \<and> whichEye c = 0 then ldelayRender s + 1
                     else ldelayRender s)
            in if l \<ge> delayNum s' then 0 else l)"
    unfolding s' by (simp add: delay_step_result(3))
  show "rdelayRender s' =
           (let l = (if rdelayRender s < delayNum s' \<and> whichEye c = 1 then rdelayRender s + 1
                     else rdelayRender s)
            in if l \<ge> delayNum s' then 0 else l)"
    unfolding s' by (simp add: delay_step_result(4))
  show "renderFrame s' =
           (if whichEye c = 0
            then (if ldelayRender s < delayNum s' then leftCurFrame s'
                  else if ldelayRender s = 0 then headPose c else renderFrame s)
            else if whichEye c = 1
            then (if rdelayRender s < delayNum s' then rightCurFrame s'
                  else if rdelayRender s = 0 then headPose c else renderFrame s)
            else renderFrame s)"
    unfolding s' by (simp add: delay_step_result)
qed

subsection \<open>Trigger edges\<close>

lemma both_up_counters:
  "lagNum (handle_input id (both_up e) (ExampleApp raw_app)) = 1"
  "delayNum (handle_input id (both_up e) (ExampleApp raw_app)) = 1"
  by (simp_all add: handle_input_result index_triggers_result hand_triggers_result both_up_def
      idle_def ExampleApp_def c_rem_def Let_def)

lemma c_rem_succ_60: "0 \<le> l \<Longrightarrow> l \<le> 59 \<Longrightarrow> c_rem (l + 1) 60 = (if l = 59 then 0 else l + 1)"
  by (simp add: c_rem_nonneg)

lemma c_rem_pred_60: "0 < l \<Longrightarrow> l \<le> 59 \<Longrightarrow> c_rem (l - 1) 60 = l - 1"
  by (simp add: c_rem_nonneg)

lemma renderScene_counters:
  assumes "app_inv s" "renderScene I s c = Some (s', r)" "inputState c = Some i"
  shows "lagNum s' = lagNum (index_triggers i s)"
    and "rightIndexP s' = rightIndexP (index_triggers i s)"
    and "leftIndexP s' = leftIndexP (index_triggers i s)"
    and "delayNum s' = delayNum (hand_triggers i s)"
    and "rightThumbP s' = rightThumbP (hand_triggers i s)"
    and "leftThumbP s' = leftThumbP (hand_triggers i s)"
  using renderScene_fields [OF assms(1,2)] assms(3) by (simp_all add: handle_input_result)

lemma trigger_call_fields:
  "inputState (trigger_call it ht) = Some (idle\<lparr>IndexTrigger := it, HandTrigger := ht\<rparr>)"
  "IndexTrigger (idle\<lparr>IndexTrigger := it, HandTrigger := ht\<rparr>) = it"
  "HandTrigger (idle\<lparr>IndexTrigger := it, HandTrigger := ht\<rparr>) = ht"
  by (simp_all add: trigger_call_def)

lemma app_inv_at_limits: "app_inv at_limits"
  using app_inv_ExampleApp [of raw_app] by (simp add: at_limits_def app_inv_def buffers60_def)

lemma at_limits_fields:
  "lagNum at_limits = 59" "delayNum at_limits = 10"
  "\<not> leftIndexP at_limits" "\<not> rightIndexP at_limits"
  "\<not> leftThumbP at_limits" "\<not> rightThumbP at_limits"
  by (simp_all add: at_limits_def ExampleApp_def)

lemma lag_up_step:
  assumes "app_inv s" "\<not> rightIndexP s"
  shows "\<exists>s' r. renderScene I s lag_up = Some (s', r) \<and> app_inv s' \<and> rightIndexP s' \<and>
           lagNum s' = (lagNum s + 1) mod 60"
proof -
  from renderScene_inv [OF assms(1), of I lag_up]
  obtain s' r where 1: "renderScene I s lag_up = Some (s', r)" "app_inv s'" by blast
  have l: "0 \<le> lagNum s" using assms(1) by (simp add: app_inv_def)
  have i: "inputState lag_up = Some (idle\<lparr>IndexTrigger := (0, 1), HandTrigger := (0, 0)\<rparr>)"
    by (simp add: lag_up_def trigger_call_fields)
  note n = renderScene_counters [OF assms(1) 1(1) i]
  have "lagNum s' = (lagNum s + 1) mod 60" "rightIndexP s'"
    unfolding n using assms(2) l
    by (simp_all add: index_triggers_result trigger_call_fields c_rem_nonneg)
  with 1 show ?thesis by blast
qed

lemma released_step:
  assumes "app_inv s"
  shows "\<exists>s' r. renderScene I s released = Some (s', r) \<and> app_inv s' \<and> \<not> rightIndexP s' \<and>
           lagNum s' = lagNum s"
proof -
  from renderScene_inv [OF assms(1), of I released]
  obtain s' r where 1: "renderScene I s released = Some (s', r)" "app_inv s'" by blast
  have i: "inputState released = Some (idle\<lparr>IndexTrigger := (0, 0), HandTrigger := (0, 0)\<rparr>)"
    by (simp add: released_def trigger_call_fields)
  note n = renderScene_counters [OF assms(1) 1(1) i]
  have "lagNum s' = lagNum s" "\<not> rightIndexP s'"
    unfolding n by (simp_all add: index_triggers_result trigger_call_fields)
  with 1 show ?thesis by blast
qed

lemma lag_up_pairs:
  "app_inv s \<Longrightarrow> \<not> rightIndexP s \<Longrightarrow>
   \<exists>s' rs. run I s (concat (replicate n [lag_up, released])) = Some (s', rs) \<and> app_inv s' \<and>
     \<not> rightIndexP s' \<and> lagNum s' = (lagNum s + int n) mod 60"
proof (induction n arbitrary: s)
  case 0
  then show ?case by (simp add: app_inv_def)
next
  case (Suc n)
  from lag_up_step [OF Suc.prems, of I] obtain s1 r1 where
    1: "renderScene I s lag_up = Some (s1, r1)" "app_inv s1" "lagNum s1 = (lagNum s + 1) mod 60"
    by blast
  from released_step [OF 1(2), of I] obtain s2 r2 where
    2: "renderScene I s1 released = Some (s2, r2)" "app_inv s2" "\<not> rightIndexP s2"
       "lagNum s2 = lagNum s1"
    by blast
  from Suc.IH [OF 2(2,3)] obtain s' rs where
    3: "run I s2 (concat (replicate n [lag_up, released])) = Some (s', rs)" "app_inv s'"
       "\<not> rightIndexP s'" "lagNum s' = (lagNum s2 + int n) mod 60"
    by blast
  have "lagNum s' = (lagNum s + int (Suc n)) mod 60"
    unfolding 3(4) 2(4) 1(3) by (simp add: mod_simps ac_simps)
  with 1(1) 2(1) 3(1,2,3) show ?case by simp
qed

subsection \<open>The interocular distance\<close>

lemma renderScene_iod:
  assumes "app_inv s" "renderScene I s c = Some (s', r)" "inputState c = Some i"
  shows "iodOffset s' = iodOffset (right_stick i s)"
    and "hmdToEyeX s' = hmdToEyeX (right_stick i s)"
  using renderScene_fields(7,8) [OF assms(1,2)] assms(3) by (simp_all add: handle_input_result)

lemma setIOD_result:
  "hmdToEyeX (setIOD off s) =
     (- (min 0.3 (max (- 0.1) (iod s + off))) / 2, min 0.3 (max (- 0.1) (iod s + off)) / 2)"
  by (simp add: setIOD_def Let_def min_def max_def)

lemma stick_right_step:
  assumes "app_inv s"
  shows "\<exists>s' r. renderScene I s stick_right = Some (s', r) \<and> app_inv s' \<and>
           iodOffset s' = iodOffset s + 1 / 100 \<and> iod s' = iod s"
proof -
  from renderScene_inv [OF assms(1), of I stick_right]
  obtain s' r where 1: "renderScene I s stick_right = Some (s', r)" "app_inv s'" by blast
  have i: "inputState stick_right = Some (idle\<lparr>Thumbstick := ((0, 0), (1, 0))\<rparr>)"
    by (simp add: stick_right_def)
  have "iodOffset s' = iodOffset s + 1 / 100"
    unfolding renderScene_iod(1) [OF assms(1) 1(1) i]
    by (simp add: right_stick_result idle_def)
  with 1 renderScene_fields(13) [OF assms(1) 1(1)] show ?thesis by blast
qed

lemma stick_right_run:
  "app_inv s \<Longrightarrow>
   \<exists>s' rs. run I s (replicate n stick_right) = Some (s', rs) \<and> app_inv s' \<and>
     iodOffset s' = iodOffset s + real n / 100 \<and> iod s' = iod s"
proof (induction n arbitrary: s)
  case 0
  then show ?case by simp
next
  case (Suc n)
  from stick_right_step [OF Suc.prems, of I] obtain s1 r1 where
    1: "renderScene I s stick_right = Some (s1, r1)" "app_inv s1"
       "iodOffset s1 = iodOffset s + 1 / 100" "iod s1 = iod s"
    by blast
  from Suc.IH [OF 1(2)] obtain s' rs where
    2: "run I s1 (replicate n stick_right) = Some (s', rs)" "app_inv s'"
       "iodOffset s' = iodOffset s1 + real n / 100" "iod s' = iod s1"
    by blast
  have "iodOffset s' = iodOffset s + real (Suc n) / 100"
    unfolding 2(3) 1(3) by (simp add: field_simps)
  with 1(1,4) 2(1,2,4) show ?case by simp
qed

lemma stick_right_input:
  "inputState stick_right = Some (idle\<lparr>Thumbstick := ((0, 0), (1, 0))\<rparr>)"
  "fst (snd (Thumbstick (idle\<lparr>Thumbstick := ((0, 0), (1, 0))\<rparr>))) = 1"
  "ovrButton_RThumb \<notin> Buttons (idle\<lparr>Thumbstick := ((0, 0), (1, 0))\<rparr>)"
  by (simp_all add: stick_right_def idle_def)

subsection \<open>The left eye at a delay of 3\<close>

lemma released_delayNum:
  assumes "app_inv s" "renderScene I s c = Some (s', r)" "hand_triggers_released c"
  shows "delayNum s' = delayNum s"
proof (cases "inputState c")
  case None
  with renderScene_fields(2) [OF assms(1,2)] show ?thesis
    by (simp add: handle_input_result)
next
  case (Some i)
  with assms(3) have "fst (HandTrigger i) \<le> 0.5" "snd (HandTrigger i) \<le> 0.5"
    by (simp_all add: hand_triggers_released_def)
  with Some renderScene_fields(2) [OF assms(1,2)] show ?thesis
    by (simp add: handle_input_result hand_triggers_result Let_def)
qed

lemma left_eye_step:
  assumes "app_inv s" "delayNum s = 3" "ldelayRender s < 3" "whichEye c = 0"
    "hand_triggers_released c"
  shows "\<exists>s' r. renderScene I s c = Some (s', r) \<and> app_inv s' \<and> delayNum s' = 3 \<and>
           out_outputFrame r = (if ldelayRender s = 0 then headPose c else leftCurFrame s) \<and>
           leftCurFrame s' = (if ldelayRender s = 0 then headPose c else leftCurFrame s) \<and>
           ldelayRender s' = (if ldelayRender s + 1 \<ge> 3 then 0 else ldelayRender s + 1)"
proof -
  from renderScene_inv [OF assms(1), of I c]
  obtain s' r where 1: "renderScene I s c = Some (s', r)" "app_inv s'" by blast
  have d: "delayNum s' = 3"
    using released_delayNum [OF assms(1) 1(1) assms(5)] assms(2) by simp
  have f: "leftCurFrame s' = (if ldelayRender s = 0 then headPose c else leftCurFrame s)"
    using renderScene_delay(1) [OF assms(1) 1(1)] assms(4) by simp
  have l: "ldelayRender s' = (if ldelayRender s + 1 \<ge> 3 then 0 else ldelayRender s + 1)"
    using renderScene_delay(3) [OF assms(1) 1(1)] assms(3,4) unfolding d by (simp add: Let_def)
  have "renderFrame s' = leftCurFrame s'"
    using renderScene_delay(5) [OF assms(1) 1(1)] assms(3,4) unfolding d by simp
  then have o: "out_outputFrame r = (if ldelayRender s = 0 then headPose c else leftCurFrame s)"
    using renderScene_output(1) [OF assms(1) 1(1)] f unfolding d by simp
  from 1 d f l o show ?thesis by blast
qed

lemma other_eye_step:
  assumes "app_inv s" "delayNum s = 3" "ldelayRender s < 3" "whichEye c \<noteq> 0"
    "hand_triggers_released c"
  shows "\<exists>s' r. renderScene I s c = Some (s', r) \<and> app_inv s' \<and> delayNum s' = 3 \<and>
           leftCurFrame s' = leftCurFrame s \<and> ldelayRender s' = ldelayRender s"
proof -
  from renderScene_inv [OF assms(1), of I c]
  obtain s' r where 1: "renderScene I s c = Some (s', r)" "app_inv s'" by blast
  have d: "delayNum s' = 3"
    using released_delayNum [OF assms(1) 1(1) assms(5)] assms(2) by simp
  have f: "leftCurFrame s' = leftCurFrame s"
    using renderScene_delay(1) [OF assms(1) 1(1)] assms(4) by simp
  have l: "ldelayRender s' = ldelayRender s"
    using renderScene_delay(3) [OF assms(1) 1(1)] assms(3,4) unfolding d by (simp add: Let_def)
  from 1 d f l show ?thesis by blast
qed

lemma other_eye_run:
  "app_inv s \<Longrightarrow> delayNum s = 3 \<Longrightarrow> ldelayRender s < 3 \<Longrightarrow>
   list_all (\<lambda>c. whichEye c \<noteq> 0) cs \<Longrightarrow> list_all hand_triggers_released cs \<Longrightarrow>
   \<exists>s' rs. run I s cs = Some (s', rs) \<and> length rs = length cs \<and> app_inv s' \<and> delayNum s' = 3 \<and>
     leftCurFrame s' = leftCurFrame s \<and> ldelayRender s' = ldelayRender s"
proof (induction cs arbitrary: s)
  case Nil
  then show ?case by simp
next
  case (Cons c cs)
  from Cons.prems(4,5) have c: "whichEye c \<noteq> 0" "hand_triggers_released c"
    and cs: "list_all (\<lambda>c. whichEye c \<noteq> 0) cs" "list_all hand_triggers_released cs"
    by simp_all
  from other_eye_step [OF Cons.prems(1,2,3) c, of I] obtain s1 r where
    1: "renderScene I s c = Some (s1, r)" "app_inv s1" "delayNum s1 = 3"
       "leftCurFrame s1 = leftCurFrame s" "ldelayRender s1 = ldelayRender s"
    by blast
  from 1(5) Cons.prems(3) have l: "ldelayRender s1 < 3" by simp
  from Cons.IH [OF 1(2,3) l cs] obtain s' rs where
    2: "run I s1 cs = Some (s', rs)" "length rs = length cs" "app_inv s'" "delayNum s' = 3"
       "leftCurFrame s' = leftCurFrame s1" "ldelayRender s' = ldelayRender s1"
    by blast
  from 1 2 show ?case by simp
qed

lemma delay3_facts: "app_inv delay3" "delayNum delay3 = 3" "ldelayRender delay3 = 0"
  using app_inv_ExampleApp [of raw_app]
  by (simp_all add: delay3_def app_inv_def buffers60_def ExampleApp_def)

lemma eye_call_facts:
  "whichEye (eye_call e t) = e" "headPose (eye_call e t) = pose_x t"
  "hand_triggers_released (eye_call e t)"
  by (simp_all add: eye_call_def hand_triggers_released_def idle_def)

lemma singleton_list: "length xs = length [y] \<Longrightarrow> \<exists>x. xs = [x]"
  by (cases xs) simp_all

subsection \<open>The fully frozen view mode\<close>

lemma Scene_render_3:
  "Scene_render dv v 3 rot pos = set_col3 (mat4_of_mat3 rot) pos"
  by (simp add: Scene_render_def)

lemma renderScene_view_mode:
  assumes "app_inv s" "renderScene I s c = Some (s', r)"
  shows "inputState c = None \<Longrightarrow>
           b_pressed s' = b_pressed s \<and> b_hasPressed s' = b_hasPressed s \<and>
           rotation s' = rotation s \<and> position s' = position s"
    and "inputState c = Some i \<Longrightarrow>
           b_pressed s' = b_pressed (button_b I (headPose c) i s) \<and>
           b_hasPressed s' = b_hasPressed (button_b I (headPose c) i s) \<and>
           rotation s' = rotation (button_b I (headPose c) i s) \<and>
           position s' = position (button_b I (headPose c) i s)"
  using renderScene_fields(3,4,5,6) [OF assms] by (simp_all add: handle_input_result)

lemma enter_fully_frozen:
  assumes "app_inv s" "b_pressed s = 2" "\<not> b_hasPressed s"
    "inputState c = Some i" "ovrButton_B \<in> Buttons i"
  shows "\<exists>s' r. renderScene I s c = Some (s', r) \<and> app_inv s' \<and> b_pressed s' = 3 \<and>
           b_hasPressed s' \<and> rotation s' = mat3_of_mat4 (I (headPose c)) \<and>
           position s' = col3 (I (headPose c)) \<and>
           out_drawView r =
             set_col3 (mat4_of_mat3 (mat3_of_mat4 (I (headPose c)))) (col3 (I (headPose c)))"
proof -
  from renderScene_inv [OF assms(1), of I c]
  obtain s' r where 1: "renderScene I s c = Some (s', r)" "app_inv s'" by blast
  have m: "b_pressed s' = 3" "b_hasPressed s'" "rotation s' = mat3_of_mat4 (I (headPose c))"
    "position s' = col3 (I (headPose c))"
    using renderScene_view_mode(2) [OF assms(1) 1(1) assms(4)] assms(2,3,5)
    by (simp_all add: button_b_result c_rem_def)
  have "out_drawView r =
      set_col3 (mat4_of_mat3 (mat3_of_mat4 (I (headPose c)))) (col3 (I (headPose c)))"
    unfolding renderScene_output(2) [OF assms(1) 1(1)] m Scene_render_3 ..
  with 1 m show ?thesis by blast
qed

lemma held_fully_frozen:
  assumes "app_inv s" "b_pressed s = 3" "b_hasPressed s" "b_held c"
  shows "\<exists>s' r. renderScene I s c = Some (s', r) \<and> app_inv s' \<and> b_pressed s' = 3 \<and>
           b_hasPressed s' \<and> rotation s' = rotation s \<and> position s' = position s \<and>
           out_drawView r = set_col3 (mat4_of_mat3 (rotation s)) (position s)"
proof -
  from renderScene_inv [OF assms(1), of I c]
  obtain s' r where 1: "renderScene I s c = Some (s', r)" "app_inv s'" by blast
  have m: "b_pressed s' = 3 \<and> b_hasPressed s' \<and> rotation s' = rotation s \<and>
      position s' = position s"
  proof (cases "inputState c")
    case None
    with renderScene_view_mode(1) [OF assms(1) 1(1)] assms(2,3) show ?thesis by simp
  next
    case (Some i)
    with assms(4) have "ovrButton_B \<in> Buttons i" by (simp add: b_held_def)
    with renderScene_view_mode(2) [OF assms(1) 1(1) Some] assms(2,3) show ?thesis
      by (simp add: button_b_result)
  qed
  have "out_drawView r = set_col3 (mat4_of_mat3 (rotation s)) (position s)"
    unfolding renderScene_output(2) [OF assms(1) 1(1)] using m by (simp add: Scene_render_3)
  with 1 m show ?thesis by blast
qed

lemma released_fully_frozen:
  assumes "app_inv s" "b_pressed s = 3" "b_released c"
  shows "\<exists>s' r. renderScene I s c = Some (s', r) \<and> app_inv s' \<and> b_pressed s' = 3 \<and>
           rotation s' = rotation s \<and> position s' = position s \<and>
           out_drawView r = set_col3 (mat4_of_mat3 (rotation s)) (position s)"
proof -
  from renderScene_inv [OF assms(1), of I c]
  obtain s' r where 1: "renderScene I s c = Some (s', r)" "app_inv s'" by blast
  have m: "b_pressed s' = 3 \<and> rotation s' = rotation s \<and> position s' = position s"
  proof (cases "inputState c")
    case None
    with renderScene_view_mode(1) [OF assms(1) 1(1)] assms(2) show ?thesis by simp
  next
    case (Some i)
    with assms(3) have "ovrButton_B \<notin> Buttons i" by (simp add: b_released_def)
    with renderScene_view_mode(2) [OF assms(1) 1(1) Some] assms(2) show ?thesis
      by (simp add: button_b_result)
  qed
  have "out_drawView r = set_col3 (mat4_of_mat3 (rotation s)) (position s)"
    unfolding renderScene_output(2) [OF assms(1) 1(1)] using m by (simp add: Scene_render_3)
  with 1 m show ?thesis by blast
qed

lemma held_run:
  "app_inv s \<Longrightarrow> b_pressed s = 3 \<Longrightarrow> b_hasPressed s \<Longrightarrow> list_all b_held cs \<Longrightarrow>
   \<exists>s' rs. run I s cs = Some (s', rs) \<and> length rs = length cs \<and> app_inv s' \<and>
     b_pressed s' = 3 \<and> b_hasPressed s' \<and> rotation s' = rotation s \<and> position s' = position s \<and>
     list_all (\<lambda>r. out_drawView r = set_col3 (mat4_of_mat3 (rotation s)) (position s)) rs"
proof (induction cs arbitrary: s)
  case Nil
  then show ?case by simp
next
  case (Cons c cs)
  from Cons.prems(4) have c: "b_held c" and cs: "list_all b_held cs" by simp_all
  from held_fully_frozen [OF Cons.prems(1,2,3) c, of I] obtain s1 r where
    1: "renderScene I s c = Some (s1, r)" "app_inv s1" "b_pressed s1 = 3" "b_hasPressed s1"
       "rotation s1 = rotation s" "position s1 = position s"
       "out_drawView r = set_col3 (mat4_of_mat3 (rotation s)) (position s)"
    by blast
  from Cons.IH [OF 1(2,3,4) cs] obtain s' rs where
    2: "run I s1 cs = Some (s', rs)" "length rs = length cs" "app_inv s'" "b_pressed s' = 3"
       "b_hasPressed s'" "rotation s' = rotation s" "position s' = position s"
       "list_all (\<lambda>r. out_drawView r = set_col3 (mat4_of_mat3 (rotation s)) (position s)) rs"
    unfolding 1(5,6) by blast
  from 1(1,7) 2 show ?case by simp
qed

lemma released_run:
  "app_inv s \<Longrightarrow> b_pressed s = 3 \<Longrightarrow> list_all b_released cs \<Longrightarrow>
   \<exists>s' rs. run I s cs = Some (s', rs) \<and> length rs = length cs \<and> app_inv s' \<and>
     b_pressed s' = 3 \<and> rotation s' = rotation s \<and> position s' = position s \<and>
     list_all (\<lambda>r. out_drawView r = set_col3 (mat4_of_mat3 (rotation s)) (position s)) rs"
proof (induction cs arbitrary: s)
  case Nil
  then show ?case by simp
next
  case (Cons c cs)
  from Cons.prems(3) have c: "b_released c" and cs: "list_all b_released cs" by simp_all
  from released_fully_frozen [OF Cons.prems(1,2) c, of I] obtain s1 r where
    1: "renderScene I s c = Some (s1, r)" "app_inv s1" "b_pressed s1 = 3"
       "rotation s1 = rotation s" "position s1 = position s"
       "out_drawView r = set_col3 (mat4_of_mat3 (rotation s)) (position s)"
    by blast
  from Cons.IH [OF 1(2,3) cs] obtain s' rs where
    2: "run I s1 cs = Some (s', rs)" "length rs = length cs" "app_inv s'" "b_pressed s' = 3"
       "rotation s' = rotation s" "position s' = position s"
       "list_all (\<lambda>r. out_drawView r = set_col3 (mat4_of_mat3 (rotation s)) (position s)) rs"
    unfolding 1(4,5) by blast
  from 1(1,6) 2 show ?case by simp
qed

lemma mode2_facts: "app_inv mode2" "b_pressed mode2 = 2" "\<not> b_hasPressed mode2"
  using app_inv_ExampleApp [of raw_app]
  by (simp_all add: mode2_def app_inv_def buffers60_def ExampleApp_def)

lemma b_call_facts:
  "inputState (b_call True t) = Some (idle\<lparr>Buttons := {ovrButton_B}\<rparr>)"
  "ovrButton_B \<in> Buttons (idle\<lparr>Buttons := {ovrButton_B}\<rparr>)"
  "b_held (b_call True t)" "b_released (b_call False t)"
  "headPose (b_call d t) = pose_x t"
  by (simp_all add: b_call_def b_held_def b_released_def)

lemma frozen_pose_x:
  "mat3_of_mat4 (id (pose_x t)) = ((1, 0, 0), (0, 1, 0), (0, 0, 1))"
  "col3 (id (pose_x t)) = (t, 0, 0, 1)"
  "set_col3 (mat4_of_mat3 ((1, 0, 0), (0, 1, 0), (0, 0, 1))) (t, 0, 0, 1) = pose_x t"
  by (simp_all add: pose_x_def)

subsection \<open>A stereo frame and the cursor history\<close>

lemma run_two:
  assumes "app_inv s"
  shows "\<exists>s1 r1 s2 r2. renderScene I s c1 = Some (s1, r1) \<and> app_inv s1 \<and>
           renderScene I s1 c2 = Some (s2, r2) \<and> app_inv s2 \<and>
           run I s [c1, c2] = Some (s2, [r1, r2])"
proof -
  from renderScene_inv [OF assms, of I c1]
  obtain s1 r1 where 1: "renderScene I s c1 = Some (s1, r1)" "app_inv s1" by blast
  from renderScene_inv [OF 1(2), of I c2]
  obtain s2 r2 where 2: "renderScene I s1 c2 = Some (s2, r2)" "app_inv s2" by blast
  from 1 2 show ?thesis by simp
qed

lemma draw_stereo:
  assumes "app_inv s" "a_pressed s = 0" "drawInput f = Some i" "ovrButton_A \<notin> Buttons i"
  shows "\<exists>s1 r1 s2 r2 s'.
           renderScene I s (mk_call (fst (eyePoses f)) 0 (firstRead f)) = Some (s1, r1) \<and>
           app_inv s1 \<and>
           renderScene I s1 (mk_call (snd (eyePoses f)) 1 (secondRead f)) = Some (s2, r2) \<and>
           app_inv s2 \<and>
           draw I s f = Some (s', [r1, r2]) \<and> app_inv s' \<and> a_pressed s' = 0 \<and>
           cringBuffer s' = cringBuffer s2 \<and> lagNum s' = lagNum s2 \<and>
           rightIndexP s' = rightIndexP s2"
proof -
  let ?c1 = "mk_call (fst (eyePoses f)) 0 (firstRead f)"
  let ?c2 = "mk_call (snd (eyePoses f)) 1 (secondRead f)"
  from run_two [OF assms(1), of I ?c1 ?c2] obtain s1 r1 s2 r2 where
    1: "renderScene I s ?c1 = Some (s1, r1)" "app_inv s1"
       "renderScene I s1 ?c2 = Some (s2, r2)" "app_inv s2"
       "run I s [?c1, ?c2] = Some (s2, [r1, r2])"
    by blast
  have a: "a_pressed s2 = 0"
    using renderScene_fields(14) [OF assms(1) 1(1)] renderScene_fields(14) [OF 1(2,3)] assms(2)
    by simp
  have d: "draw I s f =
      Some (if a_hasPressed s2 then s2\<lparr>a_hasPressed := False\<rparr> else s2, [r1, r2])"
    using assms(2,3,4) 1(5) a by (simp add: draw_def draw_block_def Let_def)
  show ?thesis
    using 1(1,2,3,4) d a by (cases "a_hasPressed s2") simp_all
qed

lemma stereo_frame_facts:
  "drawInput (stereo_frame i a b) = Some idle" "ovrButton_A \<notin> Buttons idle"
  "mk_call (fst (eyePoses (stereo_frame i a b))) 0 (firstRead (stereo_frame i a b)) =
     \<lparr>headPose = pose_x a, whichEye = 0, handPosition = (a, 0, 0), inputState = Some i\<rparr>"
  "mk_call (snd (eyePoses (stereo_frame i a b))) 1 (secondRead (stereo_frame i a b)) =
     \<lparr>headPose = pose_x b, whichEye = 1, handPosition = (b, 0, 0), inputState = Some i\<rparr>"
  by (simp_all add: stereo_frame_def mk_call_def idle_def)

lemma cursor_step:
  assumes "app_inv s" "renderScene I s c = Some (s', r)" "inputState c = Some i"
    "snd (IndexTrigger i) > 0.5 \<longrightarrow> rightIndexP s" "fst (IndexTrigger i) \<le> 0.5"
  shows "lagNum s' = lagNum s" and "rightIndexP s' = (snd (IndexTrigger i) > 0.5)"
    and "cringBuffer s' = tl (cringBuffer s) @ [handPosition c]"
    and "out_right r = cringBuffer s' ! nat (59 - lagNum s)"
proof -
  note n = renderScene_counters [OF assms(1,2,3)]
  show l: "lagNum s' = lagNum s"
    unfolding n using assms(4,5) by (auto simp: index_triggers_result)
  show "rightIndexP s' = (snd (IndexTrigger i) > 0.5)"
    unfolding n by (simp add: index_triggers_result)
  show "cringBuffer s' = tl (cringBuffer s) @ [handPosition c]"
    by (rule renderScene_buffers(3) [OF assms(1,2)])
  show "out_right r = cringBuffer s' ! nat (59 - lagNum s)"
    using renderScene_lagFrame(2) [OF assms(1,2)] l by simp
qed

lemma run_cringBuffer:
  "app_inv s \<Longrightarrow> run I s cs = Some (s', rs) \<Longrightarrow>
   cringBuffer s' = drop (length cs) (cringBuffer s @ map handPosition cs)"
proof (induction cs arbitrary: s rs)
  case Nil
  then show ?case by simp
next
  case (Cons c cs)
  from Cons.prems(2) obtain s1 r rs1 where
    1: "renderScene I s c = Some (s1, r)" and 2: "run I s1 cs = Some (s', rs1)"
    by (auto split: option.splits)
  have i1: "app_inv s1" using renderScene_inv_dest [OF Cons.prems(1) 1] .
  have ne: "cringBuffer s \<noteq> []" using Cons.prems(1) by (auto simp: app_inv_def buffers60_def)
  have "cringBuffer s' =
      drop (Suc (length cs)) (cringBuffer s @ handPosition c # map handPosition cs)"
    using Cons.IH [OF i1 2]
    unfolding renderScene_buffers(3) [OF Cons.prems(1) 1] fifo_step [OF ne] .
  then show ?case by (simp only: list.map length_Cons)
qed

text \<open>The cursor of an invocation is the entry of the controller-position history at
  index \<open>60 - lagNum - 1\<close>, which is the hand position read \<^verbatim>\<open>lagNum\<close> invocations
  earlier, and the delay path does not assign it.\<close>

lemma cursor_at_lag_offset:
  assumes "app_inv s" and "cs \<noteq> []"
  shows "\<exists>s' rs. run I s cs = Some (s', rs) \<and> length rs = length cs \<and>
           out_right (last rs) = cringBuffer s' ! nat (60 - lagNum s' - 1) \<and>
           (nat (lagNum s') < length cs \<longrightarrow>
              out_right (last rs) = handPosition (cs ! (length cs - 1 - nat (lagNum s')))) \<and>
           (0 < delayNum s' \<longrightarrow> out_outputFrame (last rs) = renderFrame s')"
proof -
  from run_inv [OF assms(1), of I cs]
  obtain s' rs where 1: "run I s cs = Some (s', rs)" "app_inv s'" "length rs = length cs" by blast
  from assms(2) obtain cs0 c where cs: "cs = cs0 @ [c]" by (metis rev_exhaust)
  from run_snoc_last [OF assms(1) 1(1) [unfolded cs]]
  obtain s1 rs1 r where 2: "app_inv s1" "renderScene I s1 c = Some (s', r)" "rs = rs1 @ [r]"
    by blast
  have l: "0 \<le> lagNum s'" "lagNum s' \<le> 59" using 1(2) by (simp_all add: app_inv_def)
  have len: "length (cringBuffer s) = 60" using assms(1) by (simp add: app_inv_def buffers60_def)
  have "60 - lagNum s' - 1 = 59 - lagNum s'" by simp
  then have a: "out_right (last rs) = cringBuffer s' ! nat (60 - lagNum s' - 1)"
    using renderScene_lagFrame(2) [OF 2(1,2)] 2(3) by simp
  have b: "out_right (last rs) = handPosition (cs ! (length cs - 1 - nat (lagNum s')))"
    if n: "nat (lagNum s') < length cs"
  proof -
    let ?k = "nat (59 - lagNum s')"
    have k: "?k + nat (lagNum s') = 59" using l by simp
    have "cringBuffer s' ! ?k = (cringBuffer s @ map handPosition cs) ! (length cs + ?k)"
      unfolding run_cringBuffer [OF assms(1) 1(1)]
      by (rule nth_drop) simp
    also have "\<dots> = map handPosition cs ! (length cs + ?k - 60)"
      using len n k by (simp add: nth_append)
    also have "length cs + ?k - 60 = length cs - 1 - nat (lagNum s')"
      using n k by simp
    also have "map handPosition cs ! (length cs - 1 - nat (lagNum s')) =
        handPosition (cs ! (length cs - 1 - nat (lagNum s')))"
      using n by simp
    finally show ?thesis
      using renderScene_lagFrame(2) [OF 2(1,2)] 2(3) by simp
  qed
  have c: "0 < delayNum s' \<longrightarrow> out_outputFrame (last rs) = renderFrame s'"
    using renderScene_output(1) [OF 2(1,2)] 2(3) by simp
  from 1(1,3) a b c show ?thesis by blast
qed

text \<open>One frame of \<^verbatim>\<open>draw\<close> in stereo mode with the delay at 0 and the left index
  trigger and the hand triggers released: \<open>L\<close> is the lag after the frame.\<close>

lemma stereo_frame_step:
  assumes "app_inv s" and "a_pressed s = 0" and "delayNum s = 0"
    and "fst (IndexTrigger i) \<le> 0.5"
    and "fst (HandTrigger i) \<le> 0.5" and "snd (HandTrigger i) \<le> 0.5"
    and "L = (if snd (IndexTrigger i) > 0.5 \<and> \<not> rightIndexP s
              then c_rem (lagNum s + 1) 60 else lagNum s)"
  shows "\<exists>s' r1 r2. draw I s (stereo_frame i a b) = Some (s', [r1, r2]) \<and>
           app_inv s' \<and> a_pressed s' = 0 \<and> delayNum s' = 0 \<and> lagNum s' = L \<and>
           rightIndexP s' = (snd (IndexTrigger i) > 0.5) \<and>
           lringBuffer s' = tl (lringBuffer s) @ [pose_x a] \<and>
           rringBuffer s' = tl (rringBuffer s) @ [pose_x b] \<and>
           cringBuffer s' = tl (tl (cringBuffer s) @ [(a, 0, 0)]) @ [(b, 0, 0)] \<and>
           out_right r1 = (tl (cringBuffer s) @ [(a, 0, 0)]) ! nat (59 - L) \<and>
           out_right r2 = cringBuffer s' ! nat (59 - L) \<and>
           out_outputFrame r1 = (if 0 < L then lringBuffer s' ! nat (59 - L) else pose_x a) \<and>
           out_outputFrame r2 = (if 0 < L then rringBuffer s' ! nat (59 - L) else pose_x b)"
proof -
  let ?c1 = "\<lparr>headPose = pose_x a, whichEye = 0, handPosition = (a, 0, 0), inputState = Some i\<rparr>"
  let ?c2 = "\<lparr>headPose = pose_x b, whichEye = 1, handPosition = (b, 0, 0), inputState = Some i\<rparr>"
  have q: "hand_triggers_released ?c1" "hand_triggers_released ?c2"
    using assms(5,6) by (simp_all add: hand_triggers_released_def)
  from renderScene_inv [OF assms(1), of I ?c1]
  obtain s1 r1 where 1: "renderScene I s ?c1 = Some (s1, r1)" "app_inv s1" by blast
  from renderScene_inv [OF 1(2), of I ?c2]
  obtain s2 r2 where 2: "renderScene I s1 ?c2 = Some (s2, r2)" "app_inv s2" by blast
  have i1: "inputState ?c1 = Some i" and i2: "inputState ?c2 = Some i" by simp_all
  note n1 = renderScene_counters(1,2) [OF assms(1) 1(1) i1]
  have l1: "lagNum s1 = L" "rightIndexP s1 = (snd (IndexTrigger i) > 0.5)"
    using n1 assms(4,7) by (simp_all add: index_triggers_result Let_def)
  have h: "snd (IndexTrigger i) > 0.5 \<longrightarrow> rightIndexP s1" using l1(2) by simp
  have l2: "lagNum s2 = L" "rightIndexP s2 = (snd (IndexTrigger i) > 0.5)"
    using cursor_step(1,2) [OF 1(2) 2(1) i2 h assms(4)] l1(1) by simp_all
  have d1: "delayNum s1 = 0" using released_delayNum [OF assms(1) 1(1) q(1)] assms(3) by simp
  have d2: "delayNum s2 = 0" using released_delayNum [OF 1(2) 2(1) q(2)] d1 by simp
  have a2: "a_pressed s2 = 0"
    using renderScene_fields(14) [OF assms(1) 1(1)] renderScene_fields(14) [OF 1(2) 2(1)] assms(2)
    by simp
  have b1: "lringBuffer s1 = tl (lringBuffer s) @ [pose_x a]" "rringBuffer s1 = rringBuffer s"
    "cringBuffer s1 = tl (cringBuffer s) @ [(a, 0, 0)]"
    using renderScene_buffers [OF assms(1) 1(1)] by simp_all
  have b2: "lringBuffer s2 = tl (lringBuffer s) @ [pose_x a]"
    "rringBuffer s2 = tl (rringBuffer s) @ [pose_x b]"
    "cringBuffer s2 = tl (tl (cringBuffer s) @ [(a, 0, 0)]) @ [(b, 0, 0)]"
    using renderScene_buffers [OF 1(2) 2(1)] b1 by simp_all
  have o1: "out_right r1 = (tl (cringBuffer s) @ [(a, 0, 0)]) ! nat (59 - L)"
    "out_outputFrame r1 = (if 0 < L then (tl (lringBuffer s) @ [pose_x a]) ! nat (59 - L) else pose_x a)"
    using renderScene_lagFrame [OF assms(1) 1(1)] renderScene_output(1) [OF assms(1) 1(1)]
      l1(1) d1 b1 by simp_all
  have o2: "out_right r2 = cringBuffer s2 ! nat (59 - L)"
    "out_outputFrame r2 = (if 0 < L then rringBuffer s2 ! nat (59 - L) else pose_x b)"
    using renderScene_lagFrame [OF 1(2) 2(1)] renderScene_output(1) [OF 1(2) 2(1)]
      l2(1) d2 by simp_all
  have r: "run I s [?c1, ?c2] = Some (s2, [r1, r2])" using 1(1) 2(1) by simp
  have d: "draw I s (stereo_frame i a b) =
      Some (if a_hasPressed s2 then s2\<lparr>a_hasPressed := False\<rparr> else s2, [r1, r2])"
    using assms(2) r a2
    by (simp add: draw_def draw_block_def Let_def stereo_frame_def mk_call_def idle_def)
  show ?thesis
    using d 2(2) a2 d2 l2 b2 o1 o2 by (cases "a_hasPressed s2") simp_all
qed

lemma pressed_facts:
  "fst (IndexTrigger idle) \<le> 0.5" "\<not> snd (IndexTrigger idle) > 0.5"
  "fst (HandTrigger idle) \<le> 0.5" "snd (HandTrigger idle) \<le> 0.5"
  "fst (IndexTrigger lag_pressed) \<le> 0.5" "snd (IndexTrigger lag_pressed) > 0.5"
  "fst (HandTrigger lag_pressed) \<le> 0.5" "snd (HandTrigger lag_pressed) \<le> 0.5"
  by (simp_all add: idle_def lag_pressed_def)

section \<open>The claims\<close>

subsection \<open>C1: the lagged pose\<close>

text \<open>
  Claim C1. For every lag \<open>l\<close> in \<open>[0, 59]\<close>, after exactly 60 recordings of known
  sequential poses on an eye's ring buffer, the read at offset \<open>60 - l - 1\<close> returns the
  pose recorded \<open>l\<close> recordings before the latest one: \<open>l = 0\<close> yields the most recent
  pose and \<open>l = 59\<close> the oldest.

  The statement is about any sequence of \<^verbatim>\<open>renderScene\<close> invocations, from any state
  that satisfies the invariant, in which exactly 60 invocations are for eye \<open>e\<close>
  (invocations for the other eye may be interleaved; the controller may do anything).
  The 60 poses recorded for eye \<open>e\<close> are \<open>map headPose (filter (\<lambda>c. whichEye c = e) cs)\<close>,
  oldest first. The last conjunct is the read that \<^verbatim>\<open>renderScene\<close> itself performs into
  \<^verbatim>\<open>lagFrame\<close> in the last invocation, at the lag then in force.
\<close>

theorem retrieveLagged_after_60_records:
  assumes "app_inv s"
    and "e = 0 \<or> e = 1"
    and "length (filter (\<lambda>c. whichEye c = e) cs) = 60"
    and "0 \<le> l" and "l \<le> 59"
  shows "\<exists>s' rs. run I s cs = Some (s', rs) \<and>
           retrieveLagged (if e = 0 then lringBuffer s' else rringBuffer s') l =
             Some (headPose (filter (\<lambda>c. whichEye c = e) cs ! nat (60 - l - 1))) \<and>
           (whichEye (last cs) = e \<longrightarrow>
              out_lagFrame (last rs) =
                headPose (filter (\<lambda>c. whichEye c = e) cs ! nat (60 - lagNum s' - 1)))"
proof -
  from run_inv [OF assms(1), of I cs]
  obtain s' rs where 1: "run I s cs = Some (s', rs)" "app_inv s'" "length rs = length cs" by blast
  let ?fs = "filter (\<lambda>c. whichEye c = e) cs"
  let ?buf = "if e = 0 then lringBuffer s' else rringBuffer s'"
  have len: "length (lringBuffer s) = 60" "length (rringBuffer s) = 60"
    using assms(1) by (simp_all add: app_inv_def buffers60_def)
  have buf: "?buf = map headPose ?fs"
    using assms(2,3) len run_lringBuffer [OF assms(1) 1(1)] run_rringBuffer [OF assms(1) 1(1)]
    by auto
  have k: "nat (59 - j) < length ?fs" if "0 \<le> j" for j :: int
    using assms(3) that by simp
  have a: "retrieveLagged ?buf l = Some (headPose (?fs ! nat (60 - l - 1)))"
    using assms(3,4,5) unfolding buf
    by (simp add: retrieveLagged_Some algebra_simps)
  have b: "out_lagFrame (last rs) = headPose (?fs ! nat (60 - lagNum s' - 1))"
    if e: "whichEye (last cs) = e"
  proof -
    from assms(3) have "cs \<noteq> []" by auto
    then obtain cs0 c where cs: "cs = cs0 @ [c]" by (metis rev_exhaust)
    from run_snoc_last [OF assms(1) 1(1) [unfolded cs]]
    obtain s1 rs1 r where 2: "app_inv s1" "renderScene I s1 c = Some (s', r)" "rs = rs1 @ [r]"
      by blast
    have l: "0 \<le> lagNum s'" using 1(2) by (simp add: app_inv_def)
    have "out_lagFrame r = ?buf ! nat (59 - lagNum s')"
      using renderScene_lagFrame(1) [OF 2(1,2)] e assms(2) cs by auto
    also have "\<dots> = headPose (?fs ! nat (59 - lagNum s'))"
      unfolding buf using k [OF l] by simp
    finally show ?thesis using 2(3) by (simp add: algebra_simps)
  qed
  from 1(1) a b show ?thesis by blast
qed

text \<open>The theorem at work: 60 left-eye invocations with poses \<open>pose_x 0 \<dots> pose_x 59\<close> after
  construction; lag 5 reads \<open>pose_x 54\<close>, and the read of the last invocation is the pose
  at the lag then in force.\<close>

theorem retrieveLagged_after_60_records_witness:
  "app_inv (ExampleApp raw_app) \<and>
   length (filter (\<lambda>c. whichEye c = 0) (map (\<lambda>n. eye_call 0 (real n)) [0..<60])) = 60 \<and>
   whichEye (last (map (\<lambda>n. eye_call 0 (real n)) [0..<60])) = 0 \<and>
   (\<exists>s' rs. run id (ExampleApp raw_app) (map (\<lambda>n. eye_call 0 (real n)) [0..<60]) = Some (s', rs) \<and>
      retrieveLagged (lringBuffer s') 5 = Some (pose_x 54) \<and>
      out_lagFrame (last rs) =
        headPose (map (\<lambda>n. eye_call 0 (real n)) [0..<60] ! nat (60 - lagNum s' - 1)))"
proof -
  let ?cs = "map (\<lambda>n. eye_call 0 (real n)) [0..<60]"
  have f: "filter (\<lambda>c. whichEye c = 0) ?cs = ?cs"
    by (simp add: filter_map o_def eye_call_def)
  have h: "length (filter (\<lambda>c. whichEye c = 0) ?cs) = 60"
    unfolding f by simp
  have n: "headPose (?cs ! 54) = pose_x 54"
    by (simp add: eye_call_def)
  have e: "whichEye (last ?cs) = 0"
    by (simp add: last_map eye_call_def)
  from retrieveLagged_after_60_records
    [where s = "ExampleApp raw_app" and e = 0 and l = 5 and I = id and cs = ?cs]
  show ?thesis
    unfolding f using n h e app_inv_ExampleApp [of raw_app] by auto
qed

subsection \<open>C2: the delay overrides the lag\<close>

text \<open>
  Claim C2. In every frame in which both the tracking lag (\<^verbatim>\<open>lagNum\<close>) and the render
  delay (\<^verbatim>\<open>delayNum\<close>) are non-zero, the pose used for rendering is the delay-frozen pose
  and not the lagged pose from the history.

  The values tested at lines 1286-1291 are those after the controller input of the same
  invocation, that is, those of the state \<open>s'\<close> the invocation leaves. The pose handed on
  is \<^verbatim>\<open>renderFrame\<close>; it is the frame frozen for the eye being rendered
  (\<^verbatim>\<open>leftCurFrame\<close>, \<^verbatim>\<open>rightCurFrame\<close>) whenever the eye's delay counter is below the delay.
\<close>

theorem delay_overrides_lag:
  assumes "app_inv s"
  shows "\<exists>s' r. renderScene I s c = Some (s', r) \<and>
           (0 < lagNum s' \<and> 0 < delayNum s' \<longrightarrow> out_outputFrame r = renderFrame s') \<and>
           (0 < delayNum s' \<and> whichEye c = 0 \<and> ldelayRender s < delayNum s' \<longrightarrow>
              renderFrame s' = leftCurFrame s') \<and>
           (0 < delayNum s' \<and> whichEye c = 1 \<and> rdelayRender s < delayNum s' \<longrightarrow>
              renderFrame s' = rightCurFrame s')"
proof -
  from renderScene_inv [OF assms, of I c]
  obtain s' r where 1: "renderScene I s c = Some (s', r)" by blast
  have "0 < lagNum s' \<and> 0 < delayNum s' \<longrightarrow> out_outputFrame r = renderFrame s'"
    using renderScene_output(1) [OF assms 1] by simp
  moreover have "0 < delayNum s' \<and> whichEye c = 0 \<and> ldelayRender s < delayNum s' \<longrightarrow>
      renderFrame s' = leftCurFrame s'"
    using renderScene_delay(5) [OF assms 1] by simp
  moreover have "0 < delayNum s' \<and> whichEye c = 1 \<and> rdelayRender s < delayNum s' \<longrightarrow>
      renderFrame s' = rightCurFrame s'"
    using renderScene_delay(5) [OF assms 1] by simp
  ultimately show ?thesis using 1 by blast
qed

text \<open>The theorem at work, for either eye: one invocation after construction raises the lag
  and the delay to 1; the pose handed on is the frame just frozen.\<close>

theorem delay_overrides_lag_witness:
  "app_inv (ExampleApp raw_app) \<and>
   (\<exists>s' r. renderScene id (ExampleApp raw_app) (both_up 0) = Some (s', r) \<and>
      0 < lagNum s' \<and> 0 < delayNum s' \<and> ldelayRender (ExampleApp raw_app) < delayNum s' \<and>
      out_outputFrame r = renderFrame s' \<and> renderFrame s' = leftCurFrame s') \<and>
   (\<exists>s' r. renderScene id (ExampleApp raw_app) (both_up 1) = Some (s', r) \<and>
      0 < lagNum s' \<and> 0 < delayNum s' \<and> rdelayRender (ExampleApp raw_app) < delayNum s' \<and>
      out_outputFrame r = renderFrame s' \<and> renderFrame s' = rightCurFrame s')"
proof -
  have i: "app_inv (ExampleApp raw_app)" by (rule app_inv_ExampleApp)
  have d: "ldelayRender (ExampleApp raw_app) = 0" "rdelayRender (ExampleApp raw_app) = 0"
    by (simp_all add: ExampleApp_def)
  have e: "whichEye (both_up 0) = 0" "whichEye (both_up 1) = 1"
    by (simp_all add: both_up_def)
  from delay_overrides_lag [OF i, of id "both_up 0"]
  obtain s' r where 1: "renderScene id (ExampleApp raw_app) (both_up 0) = Some (s', r)"
    and 2: "0 < lagNum s' \<and> 0 < delayNum s' \<longrightarrow> out_outputFrame r = renderFrame s'"
    and 3: "0 < delayNum s' \<and> whichEye (both_up 0) = 0 \<and>
            ldelayRender (ExampleApp raw_app) < delayNum s' \<longrightarrow> renderFrame s' = leftCurFrame s'"
    by blast
  have l: "lagNum s' = 1" "delayNum s' = 1"
    using renderScene_fields(1,2) [OF i 1] by (simp_all add: both_up_counters)
  from delay_overrides_lag [OF i, of id "both_up 1"]
  obtain t' q where 4: "renderScene id (ExampleApp raw_app) (both_up 1) = Some (t', q)"
    and 5: "0 < lagNum t' \<and> 0 < delayNum t' \<longrightarrow> out_outputFrame q = renderFrame t'"
    and 6: "0 < delayNum t' \<and> whichEye (both_up 1) = 1 \<and>
            rdelayRender (ExampleApp raw_app) < delayNum t' \<longrightarrow> renderFrame t' = rightCurFrame t'"
    by blast
  have m: "lagNum t' = 1" "delayNum t' = 1"
    using renderScene_fields(1,2) [OF i 4] by (simp_all add: both_up_counters)
  from 2 3 l d e have a: "out_outputFrame r = renderFrame s'" "renderFrame s' = leftCurFrame s'"
    by simp_all
  from 5 6 m d e have b: "out_outputFrame q = renderFrame t'" "renderFrame t' = rightCurFrame t'"
    by simp_all
  from i 1 4 l m d a b show ?thesis by simp
qed

subsection \<open>C3: the interocular offset\<close>

text \<open>
  Claim C3 says that the interocular offset accumulator lies within its fixed range after
  each accumulation, however large the thumbstick input is.

  The accumulator \<^verbatim>\<open>iodOffset\<close> is not clamped (lines 1162-1167): holding the right
  thumbstick at 1 for 100 invocations after construction leaves it at 1, beyond the
  bounds \<open>-0.1\<close> and \<open>0.3\<close> that \<^verbatim>\<open>setIOD\<close> uses, with or without the device's \<^verbatim>\<open>iod\<close>
  (0.064 here) added.
\<close>

theorem iodOffset_unbounded:
  "iodOffset (fst (the (run id (ExampleApp raw_app) (replicate 100 stick_right)))) = 1 \<and>
   iod (fst (the (run id (ExampleApp raw_app) (replicate 100 stick_right)))) = 0.064 \<and>
   0.3 < iodOffset (fst (the (run id (ExampleApp raw_app) (replicate 100 stick_right))))"
proof -
  have f: "iodOffset (ExampleApp raw_app) = 0" "iod (ExampleApp raw_app) = 0.064"
    by (simp_all add: ExampleApp_def raw_app_def)
  from stick_right_run [OF app_inv_ExampleApp, of id raw_app 100]
  obtain s' rs where 1:
    "run id (ExampleApp raw_app) (replicate 100 stick_right) = Some (s', rs)"
    "iodOffset s' = 1" "iod s' = 0.064"
    unfolding f by auto
  then show ?thesis by simp
qed

text \<open>
  Claim C3, amended. What is clamped is the interocular distance that \<^verbatim>\<open>setIOD\<close>
  applies: after every invocation in which the right thumbstick is off centre or its
  button is pressed, the eye offsets are \<open>\<mp> d / 2\<close> where \<open>d\<close> is \<^verbatim>\<open>iod + iodOffset\<close>
  clamped to \<open>[-0.1, 0.3]\<close>, however large the input is. The accumulator itself is the plain
  sum (or 0 after the reset button).
\<close>

theorem applied_iod_clamped:
  assumes "app_inv s" and "inputState c = Some i"
    and "fst (snd (Thumbstick i)) \<noteq> 0 \<or> ovrButton_RThumb \<in> Buttons i"
  shows "\<exists>s' r. renderScene I s c = Some (s', r) \<and>
    iodOffset s' = (if ovrButton_RThumb \<in> Buttons i then 0
                    else iodOffset s + fst (snd (Thumbstick i)) / 100) \<and>
    fst (hmdToEyeX s') = - snd (hmdToEyeX s') \<and>
    snd (hmdToEyeX s') - fst (hmdToEyeX s') = min 0.3 (max (- 0.1) (iod s + iodOffset s')) \<and>
    - 0.1 \<le> snd (hmdToEyeX s') - fst (hmdToEyeX s') \<and>
    snd (hmdToEyeX s') - fst (hmdToEyeX s') \<le> 0.3"
proof -
  from renderScene_inv [OF assms(1), of I c]
  obtain s' r where 1: "renderScene I s c = Some (s', r)" by blast
  note n = renderScene_iod [OF assms(1) 1 assms(2)]
  have o: "iodOffset s' = (if ovrButton_RThumb \<in> Buttons i then 0
                    else iodOffset s + fst (snd (Thumbstick i)) / 100)"
    unfolding n(1) using assms(3) by (simp add: right_stick_result)
  have h: "hmdToEyeX s' =
     (- (min 0.3 (max (- 0.1) (iod s + iodOffset s'))) / 2,
      min 0.3 (max (- 0.1) (iod s + iodOffset s')) / 2)"
    unfolding n using assms(3) by (auto simp: right_stick_result(2) setIOD_result)
  have a: "fst (hmdToEyeX s') = - snd (hmdToEyeX s')" unfolding h by simp
  have b: "snd (hmdToEyeX s') - fst (hmdToEyeX s') = min 0.3 (max (- 0.1) (iod s + iodOffset s'))"
    unfolding h by simp
  have c: "- 0.1 \<le> snd (hmdToEyeX s') - fst (hmdToEyeX s')"
    "snd (hmdToEyeX s') - fst (hmdToEyeX s') \<le> 0.3"
    unfolding b by (simp_all add: min_def max_def)
  from 1 o a b c show ?thesis by blast
qed

text \<open>The theorem at work: one push of the thumbstick after construction applies the
  distance 0.074; the same push with the accumulator already at 1 applies 0.3.\<close>

theorem applied_iod_clamped_witness:
  "app_inv (ExampleApp raw_app) \<and>
   (\<exists>s' r. renderScene id (ExampleApp raw_app) stick_right = Some (s', r) \<and>
      iodOffset s' = 0.01 \<and>
      snd (hmdToEyeX s') - fst (hmdToEyeX s') = 0.074) \<and>
   (\<exists>s' r. renderScene id ((ExampleApp raw_app)\<lparr>iodOffset := 1\<rparr>) stick_right = Some (s', r) \<and>
      iodOffset s' = 1.01 \<and>
      snd (hmdToEyeX s') - fst (hmdToEyeX s') = 0.3)"
proof -
  have i: "app_inv (ExampleApp raw_app)" by (rule app_inv_ExampleApp)
  then have j: "app_inv ((ExampleApp raw_app)\<lparr>iodOffset := 1\<rparr>)"
    by (simp add: app_inv_def buffers60_def)
  have f: "iodOffset (ExampleApp raw_app) = 0" "iod (ExampleApp raw_app) = 0.064"
    "iod ((ExampleApp raw_app)\<lparr>iodOffset := 1\<rparr>) = 0.064"
    by (simp_all add: ExampleApp_def raw_app_def)
  from applied_iod_clamped [OF i stick_right_input(1), of id]
  obtain s' r where 1: "renderScene id (ExampleApp raw_app) stick_right = Some (s', r)"
    and 2: "iodOffset s' = 0.01"
    and 3: "snd (hmdToEyeX s') - fst (hmdToEyeX s') =
              min 0.3 (max (- 0.1) (iod (ExampleApp raw_app) + iodOffset s'))"
    unfolding stick_right_input(2) f(1) using stick_right_input(3) by auto
  have a: "snd (hmdToEyeX s') - fst (hmdToEyeX s') = 0.074"
    unfolding 3 2 f by simp
  from applied_iod_clamped [OF j stick_right_input(1), of id]
  obtain t' q where 4: "renderScene id ((ExampleApp raw_app)\<lparr>iodOffset := 1\<rparr>) stick_right = Some (t', q)"
    and 5: "iodOffset t' = 1.01"
    and 6: "snd (hmdToEyeX t') - fst (hmdToEyeX t') =
              min 0.3 (max (- 0.1) (iod ((ExampleApp raw_app)\<lparr>iodOffset := 1\<rparr>) + iodOffset t'))"
    unfolding stick_right_input(2) using stick_right_input(3) by auto
  have b: "snd (hmdToEyeX t') - fst (hmdToEyeX t') = 0.3"
    unfolding 6 5 f by simp
  from i 1 2 a 4 5 b show ?thesis by blast
qed

subsection \<open>C4: one cursor recording per frame\<close>

text \<open>
  Claim C4. In every frame the shared controller-position history receives exactly one
  pop-and-push update, however many eyes are rendered in that frame.

  The update sits in \<^verbatim>\<open>renderScene\<close> (lines 1108-1110) without a guard on the eye, and
  \<^verbatim>\<open>draw\<close> invokes \<^verbatim>\<open>renderScene\<close> once per rendered eye. In stereo mode the history
  therefore advances twice per frame: after one stereo frame following construction its
  last two entries are the two hand positions read during the frame, where a single
  update would have left 59 initial entries and one new one. Since the cursor is read at
  the same offset for both eyes, the two eyes of one frame are then handed hand positions
  of different frames: at lag 1, in the frame whose reads are \<open>(3, 0, 0)\<close> and
  \<open>(4, 0, 0)\<close> after a frame whose reads were \<open>(1, 0, 0)\<close> and \<open>(2, 0, 0)\<close>, the left eye
  gets \<open>(2, 0, 0)\<close> from the frame before and the right eye \<open>(3, 0, 0)\<close> from the current
  frame.
\<close>

theorem cursor_history_two_updates_in_stereo:
  "cringBuffer (fst (the (draw id (ExampleApp raw_app) (stereo_frame idle 1 2)))) =
     replicate 58 vec3_1 @ [(1, 0, 0), (2, 0, 0)] \<and>
   length (snd (the (draw id (ExampleApp raw_app) (stereo_frame idle 1 2)))) = 2 \<and>
   recordPose (cringBuffer (ExampleApp raw_app)) (2, 0, 0) =
     Some (replicate 59 vec3_1 @ [(2, 0, 0)]) \<and>
   lagNum (fst (the (draw id (ExampleApp raw_app) (stereo_frame lag_pressed 1 2)))) = 1 \<and>
   map out_right (snd (the (draw id
       (fst (the (draw id (ExampleApp raw_app) (stereo_frame lag_pressed 1 2))))
       (stereo_frame idle 3 4)))) = [(2, 0, 0), (3, 0, 0)]"
proof -
  note i0 = app_inv_ExampleApp [of raw_app]
  have f: "a_pressed (ExampleApp raw_app) = 0" "lagNum (ExampleApp raw_app) = 0"
    "\<not> rightIndexP (ExampleApp raw_app)"
    "cringBuffer (ExampleApp raw_app) = replicate 60 vec3_1"
    by (simp_all add: ExampleApp_def)
  have idle_t: "\<not> snd (IndexTrigger idle) > 0.5" "fst (IndexTrigger idle) \<le> 0.5"
    "snd (IndexTrigger lag_pressed) > 0.5" "fst (IndexTrigger lag_pressed) \<le> 0.5"
    by (simp_all add: idle_def lag_pressed_def)
  from draw_stereo [OF i0 f(1) stereo_frame_facts(1,2), of id idle 1 2]
  obtain s1 r1 s2 r2 s' where
    a: "renderScene id (ExampleApp raw_app)
          \<lparr>headPose = pose_x 1, whichEye = 0, handPosition = (1, 0, 0), inputState = Some idle\<rparr> =
        Some (s1, r1)" "app_inv s1"
       "renderScene id s1
          \<lparr>headPose = pose_x 2, whichEye = 1, handPosition = (2, 0, 0), inputState = Some idle\<rparr> =
        Some (s2, r2)"
       "draw id (ExampleApp raw_app) (stereo_frame idle 1 2) = Some (s', [r1, r2])"
       "cringBuffer s' = cringBuffer s2"
    unfolding stereo_frame_facts by blast
  have "cringBuffer s1 = replicate 59 vec3_1 @ [(1, 0, 0)]"
    using cursor_step(3) [OF i0 a(1)] idle_t by (simp add: f)
  then have "cringBuffer s2 = replicate 58 vec3_1 @ [(1, 0, 0), (2, 0, 0)]"
    using cursor_step(3) [OF a(2,3)] idle_t by simp
  with a(4,5) have A: "cringBuffer (fst (the (draw id (ExampleApp raw_app) (stereo_frame idle 1 2)))) =
      replicate 58 vec3_1 @ [(1, 0, 0), (2, 0, 0)]"
    "length (snd (the (draw id (ExampleApp raw_app) (stereo_frame idle 1 2)))) = 2"
    by simp_all
  have B: "recordPose (cringBuffer (ExampleApp raw_app)) (2, 0, 0) =
      Some (replicate 59 vec3_1 @ [(2, 0, 0)])"
    unfolding f by (simp add: recordPose_60)
  from draw_stereo [OF i0 f(1) stereo_frame_facts(1,2), of id lag_pressed 1 2]
  obtain t1 q1 t2 q2 t' where
    b: "renderScene id (ExampleApp raw_app)
          \<lparr>headPose = pose_x 1, whichEye = 0, handPosition = (1, 0, 0),
           inputState = Some lag_pressed\<rparr> = Some (t1, q1)" "app_inv t1"
       "renderScene id t1
          \<lparr>headPose = pose_x 2, whichEye = 1, handPosition = (2, 0, 0),
           inputState = Some lag_pressed\<rparr> = Some (t2, q2)"
       "draw id (ExampleApp raw_app) (stereo_frame lag_pressed 1 2) = Some (t', [q1, q2])"
       "app_inv t'" "a_pressed t' = 0"
       "cringBuffer t' = cringBuffer t2" "lagNum t' = lagNum t2"
    unfolding stereo_frame_facts by blast
  have b1: "lagNum t1 = 1" "rightIndexP t1"
    "cringBuffer t1 = replicate 59 vec3_1 @ [(1, 0, 0)]"
    using renderScene_counters(1,2) [OF i0 b(1)] renderScene_buffers(3) [OF i0 b(1)] f idle_t
    by (simp_all add: index_triggers_result c_rem_def)
  have b2: "lagNum t2 = 1" "cringBuffer t2 = replicate 58 vec3_1 @ [(1, 0, 0), (2, 0, 0)]"
    using cursor_step(1,3) [OF b(2,3)] b1 idle_t by simp_all
  have t': "lagNum t' = 1" "cringBuffer t' = replicate 58 vec3_1 @ [(1, 0, 0), (2, 0, 0)]"
    using b(7,8) b2 by simp_all
  from draw_stereo [OF b(5,6) stereo_frame_facts(1,2), of id idle 3 4]
  obtain u1 p1 u2 p2 u' where
    c: "renderScene id t'
          \<lparr>headPose = pose_x 3, whichEye = 0, handPosition = (3, 0, 0), inputState = Some idle\<rparr> =
        Some (u1, p1)" "app_inv u1"
       "renderScene id u1
          \<lparr>headPose = pose_x 4, whichEye = 1, handPosition = (4, 0, 0), inputState = Some idle\<rparr> =
        Some (u2, p2)"
       "draw id t' (stereo_frame idle 3 4) = Some (u', [p1, p2])"
    unfolding stereo_frame_facts by blast
  have c1: "lagNum u1 = 1" "cringBuffer u1 = replicate 57 vec3_1 @ [(1, 0, 0), (2, 0, 0), (3, 0, 0)]"
    "out_right p1 = (2, 0, 0)"
    using cursor_step(1,3,4) [OF b(5) c(1)] t' idle_t by (simp_all add: nth_append)
  have c2: "out_right p2 = (3, 0, 0)"
    using cursor_step(3,4) [OF c(2,3)] c1 idle_t by (simp add: nth_append)
  have C: "lagNum (fst (the (draw id (ExampleApp raw_app) (stereo_frame lag_pressed 1 2)))) = 1"
    "map out_right (snd (the (draw id
       (fst (the (draw id (ExampleApp raw_app) (stereo_frame lag_pressed 1 2))))
       (stereo_frame idle 3 4)))) = [(2, 0, 0), (3, 0, 0)]"
    using b(4) c(4) t'(1) c1(3) c2 by simp_all
  from A B C show ?thesis by blast
qed

subsection \<open>C5: one step per trigger edge\<close>

text \<open>
  Claim C5 says that each trigger edge changes the tracking lag (respectively the render
  delay) by exactly one, saturating at \<open>[0, 59]\<close> (respectively \<open>[0, 10]\<close>), so that an
  increment edge at lag 59 leaves the lag at 59.

  The code does not saturate the lag upwards: line 1191 is
  \<^verbatim>\<open>lagNum = (lagNum + 1) % 60\<close>. After 59 press-and-release pairs of the right index
  trigger the lag is 59 with the edge flag clear; the next press makes it 0.
\<close>

theorem lag_wraps_at_59:
  "lagNum (fst (the (run id (ExampleApp raw_app) (concat (replicate 59 [lag_up, released]))))) = 59 \<and>
   \<not> rightIndexP (fst (the (run id (ExampleApp raw_app) (concat (replicate 59 [lag_up, released]))))) \<and>
   lagNum (fst (the (run id (ExampleApp raw_app)
     (concat (replicate 59 [lag_up, released]) @ [lag_up])))) = 0"
proof -
  have f: "\<not> rightIndexP (ExampleApp raw_app)" "lagNum (ExampleApp raw_app) = 0"
    by (simp_all add: ExampleApp_def)
  from lag_up_pairs [OF app_inv_ExampleApp f(1), of id 59]
  obtain s59 rs where 1:
    "run id (ExampleApp raw_app) (concat (replicate 59 [lag_up, released])) = Some (s59, rs)"
    "app_inv s59" "\<not> rightIndexP s59" "lagNum s59 = 59"
    unfolding f(2) by auto
  from lag_up_step [OF 1(2,3), of id]
  obtain s60 r where 2: "renderScene id s59 lag_up = Some (s60, r)" "lagNum s60 = 0"
    unfolding 1(4) by auto
  have "run id (ExampleApp raw_app) (concat (replicate 59 [lag_up, released]) @ [lag_up]) =
          Some (s60, rs @ [r])"
    by (simp add: run_append 1(1) 2(1))
  with 1 2 show ?thesis by simp
qed

text \<open>
  Claim C5, amended. An edge is a trigger above 0.5 whose flag is clear; the opposite
  trigger is released. An increment edge of the tracking lag adds one and wraps from 59
  to 0; a decrement edge subtracts one and leaves 0 at 0. An increment edge of the render
  delay adds one and leaves 10 at 10; a decrement edge subtracts one and leaves 0 at 0.
\<close>

theorem trigger_edges:
  assumes "app_inv s" and "inputState c = Some i"
  shows "\<exists>s' r. renderScene I s c = Some (s', r) \<and>
    (snd (IndexTrigger i) > 0.5 \<and> \<not> rightIndexP s \<and> fst (IndexTrigger i) \<le> 0.5 \<longrightarrow>
       lagNum s' = (if lagNum s = 59 then 0 else lagNum s + 1)) \<and>
    (fst (IndexTrigger i) > 0.5 \<and> \<not> leftIndexP s \<and> snd (IndexTrigger i) \<le> 0.5 \<longrightarrow>
       lagNum s' = (if lagNum s = 0 then 0 else lagNum s - 1)) \<and>
    (snd (HandTrigger i) > 0.5 \<and> \<not> rightThumbP s \<and> fst (HandTrigger i) \<le> 0.5 \<longrightarrow>
       delayNum s' = (if delayNum s = 10 then 10 else delayNum s + 1)) \<and>
    (fst (HandTrigger i) > 0.5 \<and> \<not> leftThumbP s \<and> snd (HandTrigger i) \<le> 0.5 \<longrightarrow>
       delayNum s' = (if delayNum s = 0 then 0 else delayNum s - 1))"
proof -
  from renderScene_inv [OF assms(1), of I c]
  obtain s' r where 1: "renderScene I s c = Some (s', r)" by blast
  have l: "0 \<le> lagNum s" "lagNum s \<le> 59" and d: "0 \<le> delayNum s" "delayNum s \<le> 10"
    using assms(1) by (simp_all add: app_inv_def)
  note n = renderScene_counters [OF assms(1) 1 assms(2)]
  have a: "lagNum s' = (if lagNum s = 59 then 0 else lagNum s + 1)"
    if "snd (IndexTrigger i) > 0.5" "\<not> rightIndexP s" "fst (IndexTrigger i) \<le> 0.5"
    using that l unfolding n(1) by (simp add: index_triggers_result c_rem_succ_60)
  have b: "lagNum s' = (if lagNum s = 0 then 0 else lagNum s - 1)"
    if "fst (IndexTrigger i) > 0.5" "\<not> leftIndexP s" "snd (IndexTrigger i) \<le> 0.5"
    using that l unfolding n(1) by (simp add: index_triggers_result c_rem_pred_60)
  have c: "delayNum s' = (if delayNum s = 10 then 10 else delayNum s + 1)"
    if "snd (HandTrigger i) > 0.5" "\<not> rightThumbP s" "fst (HandTrigger i) \<le> 0.5"
    using that d unfolding n(4) by (simp add: hand_triggers_result Let_def)
  have e: "delayNum s' = (if delayNum s = 0 then 0 else delayNum s - 1)"
    if "fst (HandTrigger i) > 0.5" "\<not> leftThumbP s" "snd (HandTrigger i) \<le> 0.5"
    using that d unfolding n(4) by (simp add: hand_triggers_result Let_def)
  from 1 a b c e show ?thesis by blast
qed

text \<open>The four edges at work in the state where the lag is 59 and the delay is 10.\<close>

theorem trigger_edges_witness:
  "app_inv at_limits \<and>
   (\<exists>s' r. renderScene id at_limits lag_up = Some (s', r) \<and> lagNum s' = 0) \<and>
   (\<exists>s' r. renderScene id at_limits lag_down = Some (s', r) \<and> lagNum s' = 58) \<and>
   (\<exists>s' r. renderScene id at_limits delay_up = Some (s', r) \<and> delayNum s' = 10) \<and>
   (\<exists>s' r. renderScene id at_limits delay_down = Some (s', r) \<and> delayNum s' = 9)"
proof -
  note i = app_inv_at_limits
  have "\<exists>s' r. renderScene id at_limits lag_up = Some (s', r) \<and> lagNum s' = 0"
    using trigger_edges [OF i trigger_call_fields(1) [of "(0, 1)" "(0, 0)"], of id]
    by (simp add: lag_up_def trigger_call_fields at_limits_fields)
  moreover have "\<exists>s' r. renderScene id at_limits lag_down = Some (s', r) \<and> lagNum s' = 58"
    using trigger_edges [OF i trigger_call_fields(1) [of "(1, 0)" "(0, 0)"], of id]
    by (simp add: lag_down_def trigger_call_fields at_limits_fields)
  moreover have "\<exists>s' r. renderScene id at_limits delay_up = Some (s', r) \<and> delayNum s' = 10"
    using trigger_edges [OF i trigger_call_fields(1) [of "(0, 0)" "(0, 1)"], of id]
    by (simp add: delay_up_def trigger_call_fields at_limits_fields)
  moreover have "\<exists>s' r. renderScene id at_limits delay_down = Some (s', r) \<and> delayNum s' = 9"
    using trigger_edges [OF i trigger_call_fields(1) [of "(0, 0)" "(1, 0)"], of id]
    by (simp add: delay_down_def trigger_call_fields at_limits_fields)
  ultimately show ?thesis using i by blast
qed

subsection \<open>C6: a render delay of three frames\<close>

text \<open>
  Claim C6. With a render delay of 3 and a fresh delay counter, the render transform for
  eye 0 stays equal to the pose captured at the capture frame for 3 consecutive frames,
  and is recaptured from the then current head pose on the 4th frame.

  The frames are four invocations \<open>c1 \<dots> c4\<close> for eye 0; between them any number of
  invocations for the other eye may run (one in stereo mode, none in the left-eye-only
  mode). No hand trigger is pressed meanwhile, so the delay stays 3. The render transform
  is \<^verbatim>\<open>outputFrame\<close>, whose inverse \<^verbatim>\<open>renderScene\<close> hands to the scene.
\<close>

theorem render_delay_three_frames:
  assumes "app_inv s" and "delayNum s = 3" and "ldelayRender s = 0"
    and "whichEye c1 = 0" and "whichEye c2 = 0" and "whichEye c3 = 0" and "whichEye c4 = 0"
    and "list_all (\<lambda>c. whichEye c \<noteq> 0) (o1 @ o2 @ o3)"
    and "list_all hand_triggers_released ([c1, c2, c3, c4] @ o1 @ o2 @ o3)"
  shows "\<exists>s' r1 rs1 r2 rs2 r3 rs3 r4.
           run I s (c1 # o1 @ c2 # o2 @ c3 # o3 @ [c4]) =
             Some (s', r1 # rs1 @ r2 # rs2 @ r3 # rs3 @ [r4]) \<and>
           length rs1 = length o1 \<and> length rs2 = length o2 \<and> length rs3 = length o3 \<and>
           out_outputFrame r1 = headPose c1 \<and> out_outputFrame r2 = headPose c1 \<and>
           out_outputFrame r3 = headPose c1 \<and> out_outputFrame r4 = headPose c4"
proof -
  from assms(8) have e: "list_all (\<lambda>c. whichEye c \<noteq> 0) o1"
    "list_all (\<lambda>c. whichEye c \<noteq> 0) o2" "list_all (\<lambda>c. whichEye c \<noteq> 0) o3"
    by simp_all
  from assms(9) have q: "hand_triggers_released c1" "hand_triggers_released c2"
    "hand_triggers_released c3" "hand_triggers_released c4"
    "list_all hand_triggers_released o1" "list_all hand_triggers_released o2"
    "list_all hand_triggers_released o3"
    by simp_all
  from assms(3) have l0: "ldelayRender s < 3" by simp
  from left_eye_step [OF assms(1,2) l0 assms(4) q(1), of I] assms(3) obtain s1 r1 where
    1: "renderScene I s c1 = Some (s1, r1)" "app_inv s1" "delayNum s1 = 3"
       "out_outputFrame r1 = headPose c1" "leftCurFrame s1 = headPose c1" "ldelayRender s1 = 1"
    by auto
  from 1(6) have l1: "ldelayRender s1 < 3" by simp
  from other_eye_run [OF 1(2,3) l1 e(1) q(5), of I] obtain t1 rs1 where
    2: "run I s1 o1 = Some (t1, rs1)" "length rs1 = length o1" "app_inv t1" "delayNum t1 = 3"
       "leftCurFrame t1 = headPose c1" "ldelayRender t1 = 1"
    unfolding 1(5,6) by blast
  from 2(6) have l2: "ldelayRender t1 < 3" by simp
  from left_eye_step [OF 2(3,4) l2 assms(5) q(2), of I] obtain s2 r2 where
    3: "renderScene I t1 c2 = Some (s2, r2)" "app_inv s2" "delayNum s2 = 3"
       "out_outputFrame r2 = headPose c1" "leftCurFrame s2 = headPose c1" "ldelayRender s2 = 2"
    unfolding 2(5,6) by auto
  from 3(6) have l3: "ldelayRender s2 < 3" by simp
  from other_eye_run [OF 3(2,3) l3 e(2) q(6), of I] obtain t2 rs2 where
    4: "run I s2 o2 = Some (t2, rs2)" "length rs2 = length o2" "app_inv t2" "delayNum t2 = 3"
       "leftCurFrame t2 = headPose c1" "ldelayRender t2 = 2"
    unfolding 3(5,6) by blast
  from 4(6) have l4: "ldelayRender t2 < 3" by simp
  from left_eye_step [OF 4(3,4) l4 assms(6) q(3), of I] obtain s3 r3 where
    5: "renderScene I t2 c3 = Some (s3, r3)" "app_inv s3" "delayNum s3 = 3"
       "out_outputFrame r3 = headPose c1" "ldelayRender s3 = 0"
    unfolding 4(5,6) by auto
  from 5(5) have l5: "ldelayRender s3 < 3" by simp
  from other_eye_run [OF 5(2,3) l5 e(3) q(7), of I] obtain t3 rs3 where
    6: "run I s3 o3 = Some (t3, rs3)" "length rs3 = length o3" "app_inv t3" "delayNum t3 = 3"
       "ldelayRender t3 = 0"
    unfolding 5(5) by blast
  from 6(5) have l6: "ldelayRender t3 < 3" by simp
  from left_eye_step [OF 6(3,4) l6 assms(7) q(4), of I] obtain s4 r4 where
    7: "renderScene I t3 c4 = Some (s4, r4)" "out_outputFrame r4 = headPose c4"
    unfolding 6(5) by auto
  have "run I s (c1 # o1 @ c2 # o2 @ c3 # o3 @ [c4]) =
          Some (s4, r1 # rs1 @ r2 # rs2 @ r3 # rs3 @ [r4])"
    by (simp add: run_append 1(1) 2(1) 3(1) 4(1) 5(1) 6(1) 7(1))
  with 1(4) 2(2) 3(4) 4(2) 5(4) 6(2) 7(2) show ?thesis by blast
qed

text \<open>The theorem at work in stereo mode: four frames with head poses \<open>pose_x 1 \<dots> pose_x 4\<close>;
  the left eye renders \<open>pose_x 1\<close> three times and then \<open>pose_x 4\<close>.\<close>

theorem render_delay_three_frames_witness:
  "app_inv delay3 \<and> delayNum delay3 = 3 \<and> ldelayRender delay3 = 0 \<and>
   (\<exists>s' r1 q1 r2 q2 r3 q3 r4.
      run id delay3 [eye_call 0 1, eye_call 1 1, eye_call 0 2, eye_call 1 2,
                     eye_call 0 3, eye_call 1 3, eye_call 0 4] =
        Some (s', [r1, q1, r2, q2, r3, q3, r4]) \<and>
      out_outputFrame r1 = pose_x 1 \<and> out_outputFrame r2 = pose_x 1 \<and>
      out_outputFrame r3 = pose_x 1 \<and> out_outputFrame r4 = pose_x 4)"
proof -
  have e: "list_all (\<lambda>c. whichEye c \<noteq> 0) ([eye_call 1 1] @ [eye_call 1 2] @ [eye_call 1 3])"
    by (simp add: eye_call_facts)
  have q: "list_all hand_triggers_released
      ([eye_call 0 1, eye_call 0 2, eye_call 0 3, eye_call 0 4] @
       [eye_call 1 1] @ [eye_call 1 2] @ [eye_call 1 3])"
    by (simp add: eye_call_facts)
  from render_delay_three_frames [OF delay3_facts eye_call_facts(1) eye_call_facts(1)
      eye_call_facts(1) eye_call_facts(1) e q, of id]
  obtain s' r1 rs1 r2 rs2 r3 rs3 r4 where
    1: "run id delay3 (eye_call 0 1 # [eye_call 1 1] @ eye_call 0 2 # [eye_call 1 2] @
          eye_call 0 3 # [eye_call 1 3] @ [eye_call 0 4]) =
        Some (s', r1 # rs1 @ r2 # rs2 @ r3 # rs3 @ [r4])"
    and 2: "length rs1 = length [eye_call 1 1]" "length rs2 = length [eye_call 1 2]"
      "length rs3 = length [eye_call 1 3]"
    and 3: "out_outputFrame r1 = headPose (eye_call 0 1)"
      "out_outputFrame r2 = headPose (eye_call 0 1)"
      "out_outputFrame r3 = headPose (eye_call 0 1)"
      "out_outputFrame r4 = headPose (eye_call 0 4)"
    by blast
  from singleton_list [OF 2(1)] singleton_list [OF 2(2)] singleton_list [OF 2(3)]
  obtain q1 q2 q3 where 4: "rs1 = [q1]" "rs2 = [q2]" "rs3 = [q3]"
    by auto
  from 1 have "run id delay3 [eye_call 0 1, eye_call 1 1, eye_call 0 2, eye_call 1 2,
                     eye_call 0 3, eye_call 1 3, eye_call 0 4] =
        Some (s', [r1, q1, r2, q2, r3, q3, r4])"
    unfolding 4 by simp
  with 3 delay3_facts show ?thesis
    unfolding eye_call_facts by blast
qed

subsection \<open>C7: the fully frozen view\<close>

text \<open>
  Claim C7. After the view mode FullyFrozen (\<^verbatim>\<open>b_pressed == 3\<close>) is entered with a known
  inverse head pose, the captured rotation (its upper-left 3x3 block) and the captured
  translation (its fourth column) persist unchanged, and the view transform of every
  later frame, whatever the live head pose, is that rotation with that translation,
  until a later edge of button B captures again.

  The mode is entered by a press edge of button B in mode 2 (invocation \<open>c0\<close>). The later
  invocations without a further edge are those during which the button is still down
  (\<open>hs\<close>) followed by those during which it is up (\<open>ls\<close>); an invocation whose controller
  read fails belongs to either. The head poses, eyes, hand positions and all other
  inputs of these invocations are arbitrary.
\<close>

theorem fully_frozen_view_persists:
  assumes "app_inv s" and "b_pressed s = 2" and "\<not> b_hasPressed s"
    and "inputState c0 = Some i0" and "ovrButton_B \<in> Buttons i0"
    and "list_all b_held hs" and "list_all b_released ls"
  shows "\<exists>s' r0 rs. run I s (c0 # hs @ ls) = Some (s', r0 # rs) \<and>
           length rs = length (hs @ ls) \<and> b_pressed s' = 3 \<and>
           rotation s' = mat3_of_mat4 (I (headPose c0)) \<and>
           position s' = col3 (I (headPose c0)) \<and>
           list_all (\<lambda>r. out_drawView r =
               set_col3 (mat4_of_mat3 (mat3_of_mat4 (I (headPose c0)))) (col3 (I (headPose c0))))
             (r0 # rs)"
proof -
  from enter_fully_frozen [OF assms(1,2,3,4,5), of I] obtain s1 r0 where
    1: "renderScene I s c0 = Some (s1, r0)" "app_inv s1" "b_pressed s1 = 3" "b_hasPressed s1"
       "rotation s1 = mat3_of_mat4 (I (headPose c0))" "position s1 = col3 (I (headPose c0))"
       "out_drawView r0 =
          set_col3 (mat4_of_mat3 (mat3_of_mat4 (I (headPose c0)))) (col3 (I (headPose c0)))"
    by blast
  from held_run [OF 1(2,3,4) assms(6), of I] obtain s2 rs1 where
    2: "run I s1 hs = Some (s2, rs1)" "length rs1 = length hs" "app_inv s2" "b_pressed s2 = 3"
       "rotation s2 = mat3_of_mat4 (I (headPose c0))" "position s2 = col3 (I (headPose c0))"
       "list_all (\<lambda>r. out_drawView r =
           set_col3 (mat4_of_mat3 (mat3_of_mat4 (I (headPose c0)))) (col3 (I (headPose c0)))) rs1"
    unfolding 1(5,6) by blast
  from released_run [OF 2(3,4) assms(7), of I] obtain s3 rs2 where
    3: "run I s2 ls = Some (s3, rs2)" "length rs2 = length ls" "b_pressed s3 = 3"
       "rotation s3 = mat3_of_mat4 (I (headPose c0))" "position s3 = col3 (I (headPose c0))"
       "list_all (\<lambda>r. out_drawView r =
           set_col3 (mat4_of_mat3 (mat3_of_mat4 (I (headPose c0)))) (col3 (I (headPose c0)))) rs2"
    unfolding 2(5,6) by blast
  have "run I s (c0 # hs @ ls) = Some (s3, r0 # rs1 @ rs2)"
    by (simp add: run_append 1(1) 2(1) 3(1))
  moreover have "length (rs1 @ rs2) = length (hs @ ls)" using 2(2) 3(2) by simp
  moreover have "list_all (\<lambda>r. out_drawView r =
       set_col3 (mat4_of_mat3 (mat3_of_mat4 (I (headPose c0)))) (col3 (I (headPose c0))))
     (r0 # rs1 @ rs2)"
    using 1(7) 2(7) 3(6) by simp
  ultimately show ?thesis using 3(3,4,5) by blast
qed

text \<open>The theorem at work: the mode is entered with the head at \<open>pose_x 5\<close>; the next two
  invocations, with the head at \<open>pose_x 6\<close> and \<open>pose_x 7\<close>, still draw with \<open>pose_x 5\<close>
  (the inverse is the identity function here).\<close>

theorem fully_frozen_view_persists_witness:
  "app_inv mode2 \<and> b_pressed mode2 = 2 \<and> \<not> b_hasPressed mode2 \<and>
   (\<exists>s' r0 r1 r2.
      run id mode2 [b_call True 5, b_call True 6, b_call False 7] = Some (s', [r0, r1, r2]) \<and>
      b_pressed s' = 3 \<and> rotation s' = ((1, 0, 0), (0, 1, 0), (0, 0, 1)) \<and>
      position s' = (5, 0, 0, 1) \<and>
      out_drawView r0 = pose_x 5 \<and> out_drawView r1 = pose_x 5 \<and> out_drawView r2 = pose_x 5)"
proof -
  have h: "list_all b_held [b_call True 6]" and l: "list_all b_released [b_call False 7]"
    by (simp_all add: b_call_facts)
  from fully_frozen_view_persists
    [OF mode2_facts b_call_facts(1) [of 5] b_call_facts(2) h l, where I = id]
  obtain s' r0 rs where
    1: "run id mode2 (b_call True 5 # [b_call True 6] @ [b_call False 7]) = Some (s', r0 # rs)"
    and 2: "length rs = length ([b_call True 6] @ [b_call False 7])"
    and 3: "b_pressed s' = 3" "rotation s' = ((1, 0, 0), (0, 1, 0), (0, 0, 1))"
      "position s' = (5, 0, 0, 1)"
    and 4: "list_all (\<lambda>r. out_drawView r = pose_x 5) (r0 # rs)"
    unfolding b_call_facts frozen_pose_x(1,2) unfolding frozen_pose_x(3) by blast
  from 2 obtain r1 r2 where 5: "rs = [r1, r2]"
    by (cases rs; cases "tl rs") auto
  from 1 3 4 mode2_facts show ?thesis unfolding 5 by simp
qed

subsection \<open>C8: the counters stay in range\<close>

text \<open>
  Claim C8. In every reachable state, under any sequence of trigger events,
  \<^verbatim>\<open>lagNum\<close> (the tracking lag) is in \<open>[0, 59]\<close> and \<^verbatim>\<open>delayNum\<close> (the render delay) is
  in \<open>[0, 10]\<close>.

  Reachable: after construction, any number of frames of \<^verbatim>\<open>draw\<close>, followed by any
  number of invocations of \<^verbatim>\<open>renderScene\<close> (which covers the states inside a frame).
  None of them runs into undefined behaviour.
\<close>

theorem counters_stay_in_range:
  "\<exists>s' rss. frames I (ExampleApp u) fs = Some (s', rss) \<and>
     (\<forall>cs. \<exists>s'' rs. run I s' cs = Some (s'', rs) \<and>
        0 \<le> lagNum s'' \<and> lagNum s'' \<le> 59 \<and> 0 \<le> delayNum s'' \<and> delayNum s'' \<le> 10)"
proof -
  from frames_inv [OF app_inv_ExampleApp, of I u fs]
  obtain s' rss where 1: "frames I (ExampleApp u) fs = Some (s', rss)" "app_inv s'" by blast
  have "\<exists>s'' rs. run I s' cs = Some (s'', rs) \<and>
        0 \<le> lagNum s'' \<and> lagNum s'' \<le> 59 \<and> 0 \<le> delayNum s'' \<and> delayNum s'' \<le> 10" for cs
    using run_inv [OF 1(2), of I cs] by (auto simp: app_inv_def)
  with 1(1) show ?thesis by blast
qed

subsection \<open>C9: the histories keep their length\<close>

text \<open>
  Claim C9. Each per-eye pose ring buffer and the shared controller-position ring buffer
  holds exactly 60 entries after construction and after every recording: every push is
  paired with a pop.

  The states are those of C8: after construction, after any number of frames, and after
  any number of further invocations of \<^verbatim>\<open>renderScene\<close>, each of which records into the
  histories.
\<close>

theorem history_length_invariant:
  "length (lringBuffer (ExampleApp u)) = 60 \<and>
   length (rringBuffer (ExampleApp u)) = 60 \<and>
   length (cringBuffer (ExampleApp u)) = 60 \<and>
   (\<exists>s' rss. frames I (ExampleApp u) fs = Some (s', rss) \<and>
     (\<forall>cs. \<exists>s'' rs. run I s' cs = Some (s'', rs) \<and>
        length (lringBuffer s'') = 60 \<and> length (rringBuffer s'') = 60 \<and>
        length (cringBuffer s'') = 60))"
proof -
  from frames_inv [OF app_inv_ExampleApp, of I u fs]
  obtain s' rss where 1: "frames I (ExampleApp u) fs = Some (s', rss)" "app_inv s'" by blast
  have "\<exists>s'' rs. run I s' cs = Some (s'', rs) \<and>
        length (lringBuffer s'') = 60 \<and> length (rringBuffer s'') = 60 \<and>
        length (cringBuffer s'') = 60" for cs
    using run_inv [OF 1(2), of I cs] by (auto simp: app_inv_def buffers60_def)
  with 1(1) show ?thesis by (simp add: ExampleApp_def)
qed

subsection \<open>C10: the cursor at the lag offset\<close>

text \<open>
  Claim C10. The cursor position handed to the scene renderer is always the entry of the
  controller-position history at the tracking-lag offset, index \<open>60 - lagNum - 1\<close>, that
  is, it is \<^verbatim>\<open>lagNum\<close> frames stale; the render-delay path never replaces it.

  The index and the independence from the delay path hold (lemma
  \<open>cursor_at_lag_offset\<close>), but the entry at that index is \<^verbatim>\<open>lagNum\<close> invocations of
  \<^verbatim>\<open>renderScene\<close> old, not \<^verbatim>\<open>lagNum\<close> frames: the history advances once per rendered
  eye (see C4). Five stereo frames after construction, with the hand read at
  \<open>(k, 0, 0)\<close> and \<open>(100 + k, 0, 0)\<close> and the head at \<open>pose_x k\<close> and \<open>pose_x (100 + k)\<close>
  in frame \<open>k\<close>, and the right index trigger pressed in frames 1 and 3: the lag is 2, and
  in frame 5 the two eyes are handed the cursors of frame 4, one frame stale, together
  with the head poses of frame 3, two frames stale.
\<close>

theorem cursor_one_frame_stale_at_lag_2:
  "lagNum (fst (the (frames id (ExampleApp raw_app)
     [stereo_frame lag_pressed 1 101, stereo_frame idle 2 102, stereo_frame lag_pressed 3 103,
      stereo_frame idle 4 104, stereo_frame idle 5 105]))) = 2 \<and>
   map out_right (last (snd (the (frames id (ExampleApp raw_app)
     [stereo_frame lag_pressed 1 101, stereo_frame idle 2 102, stereo_frame lag_pressed 3 103,
      stereo_frame idle 4 104, stereo_frame idle 5 105])))) = [(4, 0, 0), (104, 0, 0)] \<and>
   map out_outputFrame (last (snd (the (frames id (ExampleApp raw_app)
     [stereo_frame lag_pressed 1 101, stereo_frame idle 2 102, stereo_frame lag_pressed 3 103,
      stereo_frame idle 4 104, stereo_frame idle 5 105])))) = [pose_x 3, pose_x 103]"
proof -
  note i0 = app_inv_ExampleApp [of raw_app]
  have f: "a_pressed (ExampleApp raw_app) = 0" "delayNum (ExampleApp raw_app) = 0"
    "lagNum (ExampleApp raw_app) = 0" "\<not> rightIndexP (ExampleApp raw_app)"
    "lringBuffer (ExampleApp raw_app) = replicate 60 mat4_1"
    "rringBuffer (ExampleApp raw_app) = replicate 60 mat4_1"
    "cringBuffer (ExampleApp raw_app) = replicate 60 vec3_1"
    by (simp_all add: ExampleApp_def)
  have L1: "1 = (if snd (IndexTrigger lag_pressed) > 0.5 \<and> \<not> rightIndexP (ExampleApp raw_app)
      then c_rem (lagNum (ExampleApp raw_app) + 1) 60 else lagNum (ExampleApp raw_app))"
    using f pressed_facts by (simp add: c_rem_def)
  from stereo_frame_step [OF i0 f(1,2) pressed_facts(5,7,8) L1, of id 1 101]
  obtain s1 a1 b1 where
    1: "draw id (ExampleApp raw_app) (stereo_frame lag_pressed 1 101) = Some (s1, [a1, b1])"
       "app_inv s1" "a_pressed s1 = 0" "delayNum s1 = 0" "lagNum s1 = 1" "rightIndexP s1"
       "lringBuffer s1 = replicate 59 mat4_1 @ [pose_x 1]"
       "rringBuffer s1 = replicate 59 mat4_1 @ [pose_x 101]"
       "cringBuffer s1 = replicate 58 vec3_1 @ [(1, 0, 0), (101, 0, 0)]"
    unfolding f using pressed_facts by auto
  have L2: "1 = (if snd (IndexTrigger idle) > 0.5 \<and> \<not> rightIndexP s1
      then c_rem (lagNum s1 + 1) 60 else lagNum s1)"
    using 1(5) pressed_facts by simp
  from stereo_frame_step [OF 1(2,3,4) pressed_facts(1,3,4) L2, of id 2 102]
  obtain s2 a2 b2 where
    2: "draw id s1 (stereo_frame idle 2 102) = Some (s2, [a2, b2])"
       "app_inv s2" "a_pressed s2 = 0" "delayNum s2 = 0" "lagNum s2 = 1" "\<not> rightIndexP s2"
       "lringBuffer s2 = replicate 58 mat4_1 @ [pose_x 1, pose_x 2]"
       "rringBuffer s2 = replicate 58 mat4_1 @ [pose_x 101, pose_x 102]"
       "cringBuffer s2 = replicate 56 vec3_1 @ [(1, 0, 0), (101, 0, 0), (2, 0, 0), (102, 0, 0)]"
    unfolding 1(7,8,9) using pressed_facts by auto
  have L3: "2 = (if snd (IndexTrigger lag_pressed) > 0.5 \<and> \<not> rightIndexP s2
      then c_rem (lagNum s2 + 1) 60 else lagNum s2)"
    using 2(5,6) pressed_facts by (simp add: c_rem_def)
  from stereo_frame_step [OF 2(2,3,4) pressed_facts(5,7,8) L3, of id 3 103]
  obtain s3 a3 b3 where
    3: "draw id s2 (stereo_frame lag_pressed 3 103) = Some (s3, [a3, b3])"
       "app_inv s3" "a_pressed s3 = 0" "delayNum s3 = 0" "lagNum s3 = 2"
       "lringBuffer s3 = replicate 57 mat4_1 @ [pose_x 1, pose_x 2, pose_x 3]"
       "rringBuffer s3 = replicate 57 mat4_1 @ [pose_x 101, pose_x 102, pose_x 103]"
       "cringBuffer s3 = replicate 54 vec3_1 @
          [(1, 0, 0), (101, 0, 0), (2, 0, 0), (102, 0, 0), (3, 0, 0), (103, 0, 0)]"
    unfolding 2(7,8,9) using pressed_facts by auto
  have L4: "2 = (if snd (IndexTrigger idle) > 0.5 \<and> \<not> rightIndexP s3
      then c_rem (lagNum s3 + 1) 60 else lagNum s3)"
    using 3(5) pressed_facts by simp
  from stereo_frame_step [OF 3(2,3,4) pressed_facts(1,3,4) L4, of id 4 104]
  obtain s4 a4 b4 where
    4: "draw id s3 (stereo_frame idle 4 104) = Some (s4, [a4, b4])"
       "app_inv s4" "a_pressed s4 = 0" "delayNum s4 = 0" "lagNum s4 = 2"
       "lringBuffer s4 = replicate 56 mat4_1 @ [pose_x 1, pose_x 2, pose_x 3, pose_x 4]"
       "rringBuffer s4 = replicate 56 mat4_1 @ [pose_x 101, pose_x 102, pose_x 103, pose_x 104]"
       "cringBuffer s4 = replicate 52 vec3_1 @
          [(1, 0, 0), (101, 0, 0), (2, 0, 0), (102, 0, 0), (3, 0, 0), (103, 0, 0),
           (4, 0, 0), (104, 0, 0)]"
    unfolding 3(6,7,8) using pressed_facts by auto
  have L5: "2 = (if snd (IndexTrigger idle) > 0.5 \<and> \<not> rightIndexP s4
      then c_rem (lagNum s4 + 1) 60 else lagNum s4)"
    using 4(5) pressed_facts by simp
  from stereo_frame_step [OF 4(2,3,4) pressed_facts(1,3,4) L5, of id 5 105]
  obtain s5 a5 b5 where
    5: "draw id s4 (stereo_frame idle 5 105) = Some (s5, [a5, b5])" "lagNum s5 = 2"
       "out_right a5 = (4, 0, 0)" "out_right b5 = (104, 0, 0)"
       "out_outputFrame a5 = pose_x 3" "out_outputFrame b5 = pose_x 103"
    unfolding 4(6,7,8) by (auto simp: nth_append)
  have "frames id (ExampleApp raw_app)
     [stereo_frame lag_pressed 1 101, stereo_frame idle 2 102, stereo_frame lag_pressed 3 103,
      stereo_frame idle 4 104, stereo_frame idle 5 105] =
     Some (s5, [[a1, b1], [a2, b2], [a3, b3], [a4, b4], [a5, b5]])"
    by (simp add: 1(1) 2(1) 3(1) 4(1) 5(1))
  with 5 show ?thesis by simp
qed

end
